theory Spec2Isabelle
  imports Complex_Main "HOL-Library.Multiset" "HOL-Library.Log_Nat"
begin

section \<open>Chart transformers and indicators of NSE-TradeHub-Pro\<close>

text \<open>
  The theory embeds the numeric core of the frontend: the series normalizer and the Renko
  brick builder (\<^verbatim>\<open>RenkoChart.tsx\<close>), the Point-and-Figure column builder
  (\<^verbatim>\<open>PointFigureChart\<close>), the volume profile (\<^verbatim>\<open>VolumeProfileChart\<close>), the VWAP
  pass (\<^verbatim>\<open>VWAPChart.tsx\<close>) and the indicator engine (\<^verbatim>\<open>TechnicalIndicators.tsx\<close>).

  A JavaScript number is a real number here. The Renko builder and the VWAP pass compute
  in IEEE double precision: each arithmetic operation of the source is the exact
  operation followed by the rounding \<open>fl\<close> to the nearest double (section on double
  precision below). The other components read the operations of the source as exact.
  Where the source can produce a value that is not a finite number (a division by zero,
  a square root of a negative number) the model says so explicitly: such a value is
  \<open>None\<close> of an option type, or the branch the source takes on \<open>NaN\<close> is written out.
  An exception of the source is \<open>Inl\<close> of a sum type.
\<close>

subsection \<open>Data model\<close>

text \<open>
  A Point-and-Figure column: \<^verbatim>\<open>interface PFColumn\<close>. The source's type \<^verbatim>\<open>'O'\<close> is
  written \<open>O'\<close>, as \<open>O\<close> is the composition of relations in HOL.
\<close>

datatype pf_type = X | O'

record PFColumn =
  type :: pf_type
  boxes :: "int list"
  startIndex :: nat

text \<open>
  One element of \<^verbatim>\<open>chartData\<close> of the indicator engine. \<open>None\<close> is the source's
  \<^verbatim>\<open>null\<close>. The source formats the date for display; the model keeps the timestamp.
\<close>

record ChartPoint =
  date :: int
  price :: real
  sma20 :: "real option"
  sma50 :: "real option"
  rsi :: "real option"
  macd :: real
  signal :: real
  upperBand :: "real option"
  lowerBand :: "real option"

text \<open>
  A bucket of the volume profile. Its price level is \<open>None\<close> where the source computes
  \<open>NaN\<close> for it.
\<close>

record VolumeBin =
  price :: "real option"
  volume :: real

text \<open>
  A point of a line series (\<^verbatim>\<open>LineData\<close> of lightweight-charts); \<open>None\<close> is a
  value that is not a finite number.
\<close>

record LineData =
  time :: real
  "value" :: "real option"

text \<open>
  A brick as handed to the candlestick renderer (\<^verbatim>\<open>CandlestickData\<close> of
  lightweight-charts).
\<close>

record CandlestickData =
  time :: real
  "open" :: real
  high :: real
  low :: real
  close :: real

text \<open>
  One bar of the price history. The source keeps the date as a string and reads it with
  \<^verbatim>\<open>new Date(d.date).getTime()\<close>; the field \<open>date\<close> is that number of milliseconds.
\<close>

record PriceBar =
  date :: int
  "open" :: real
  high :: real
  low :: real
  close :: real
  volume :: real

datatype js_error = TypeError

subsection \<open>Double precision\<close>

text \<open>
  \<open>expo x\<close> is the binary exponent of \<open>x \<noteq> 0\<close>: \<open>2 powi expo x \<le> \<bar>x\<bar> < 2 powi (expo x + 1)\<close>.
  \<open>rne\<close> rounds a real to the nearest integer, a tie to the even one. \<open>fl x\<close> is
  \<open>x\<close> rounded to 53 significant bits, the nearest double with ties to even, which is
  what every arithmetic operation on JavaScript numbers returns of its exact result. The
  exponent range is not bounded: overflow to \<open>Infinity\<close> (beyond about \<open>1.8e308\<close>) and
  gradual underflow (below about \<open>2.2e-308\<close>) are not modelled.
\<close>

definition expo :: "real \<Rightarrow> int" where
  "expo x = (if \<bar>x\<bar> \<ge> 1 then bitlen \<lfloor>\<bar>x\<bar>\<rfloor> - 1 else - bitlen (\<lceil>1 / \<bar>x\<bar>\<rceil> - 1))"

definition rne :: "real \<Rightarrow> int" where
  "rne y = (let f = \<lfloor>y\<rfloor>; r = y - real_of_int f
            in if r < 1 / 2 then f else if r > 1 / 2 then f + 1
               else if even f then f else f + 1)"

definition fl :: "real \<Rightarrow> real" where
  "fl x = (if x = 0 then 0
           else (let e = expo x - 52 in real_of_int (rne (x / 2 powi e)) * 2 powi e))"

subsection \<open>Series normalizer\<close>

text \<open>
  \<^verbatim>\<open>uniqueMap.set(timestamp, item)\<close> on a JavaScript \<^verbatim>\<open>Map\<close>: a key that is
  present keeps its position and takes the new value, a new key goes to the end. The map
  is an association list in insertion order.
\<close>

fun map_set :: "('k \<times> 'v) list \<Rightarrow> 'k \<Rightarrow> 'v \<Rightarrow> ('k \<times> 'v) list" where
  "map_set [] k v = [(k, v)]"
| "map_set ((k', v') # m) k v =
     (if k' = k then (k, v) # m else (k', v') # map_set m k v)"

text \<open>
  \<^verbatim>\<open>[...priceData].sort((a, b) => time(a) - time(b))\<close> is a stable sort by
  timestamp (\<^verbatim>\<open>Array.prototype.sort\<close> is stable since ES2019), as \<open>sort_key\<close>
  is; then each bar is stored under its timestamp and the values are read back.
\<close>

definition sortAndDeduplicateData :: "PriceBar list \<Rightarrow> PriceBar list" where
  "sortAndDeduplicateData priceData =
     (let sorted = sort_key date priceData;
          uniqueMap = foldl (\<lambda>m item. map_set m (date item) item) [] sorted
      in map snd uniqueMap)"

subsection \<open>Renko brick builder\<close>

record renko_state =
  bricks :: "CandlestickData list"
  currentBrickPrice :: real
  brickTime :: real

text \<open>
  The inner loop \<^verbatim>\<open>for (let j = 0; j < numBricks; j++)\<close>: the second argument is
  \<open>j\<close>, the third the number of rounds left. \<^verbatim>\<open>Math.floor\<close>, \<^verbatim>\<open>Math.abs\<close>,
  \<^verbatim>\<open>Math.max\<close> and \<^verbatim>\<open>Math.min\<close> are exact; every \<open>+\<close>, \<open>-\<close>, \<open>*\<close> and \<open>/\<close> is
  rounded.
\<close>

fun renko_emit :: "real \<Rightarrow> real \<Rightarrow> nat \<Rightarrow> nat \<Rightarrow> renko_state \<Rightarrow> renko_state" where
  "renko_emit brickSize direction j 0 s = s"
| "renko_emit brickSize direction j (Suc r) s =
     (let brickOpen = currentBrickPrice s;
          brickClose = fl (currentBrickPrice s + fl (direction * brickSize))
      in renko_emit brickSize direction (Suc j) r
           (s\<lparr>bricks := bricks s @
                 [\<lparr>time = fl (brickTime s + real j), open = brickOpen,
                   high = max brickOpen brickClose, low = min brickOpen brickClose,
                   close = brickClose\<rparr>],
               currentBrickPrice := brickClose\<rparr>))"

text \<open>The body of the outer loop, for one bar of the clean series.\<close>

definition renko_step :: "real \<Rightarrow> renko_state \<Rightarrow> PriceBar \<Rightarrow> renko_state" where
  "renko_step brickSize s d =
     (let price = close d;
          priceDiff = fl (price - currentBrickPrice s);
          numBricks = \<lfloor>fl (\<bar>priceDiff\<bar> / brickSize)\<rfloor>
      in if numBricks > 0
         then (let direction = (if priceDiff > 0 then 1 else - 1);
                   s' = renko_emit brickSize direction 0 (nat numBricks) s
               in s'\<lparr>brickTime := fl (brickTime s' + real_of_int numBricks)\<rparr>)
         else s)"

text \<open>
  \<^verbatim>\<open>calculateRenkoBricks\<close>. Reading \<^verbatim>\<open>cleanData[0].close\<close> of an empty array
  would throw. With \<open>brickSize = 0\<close> the seed \<^verbatim>\<open>Math.floor(close / 0) * 0\<close> is
  \<open>NaN\<close>, so is every \<^verbatim>\<open>numBricks\<close>, the test \<^verbatim>\<open>numBricks > 0\<close> is false for
  every bar and the brick list stays empty.
\<close>

definition calculateRenkoBricks :: "PriceBar list \<Rightarrow> real \<Rightarrow> js_error + CandlestickData list" where
  "calculateRenkoBricks priceData brickSize =
     (if priceData = [] then Inr []
      else (let cleanData = sortAndDeduplicateData priceData
            in case cleanData of
                 [] \<Rightarrow> Inl TypeError
               | d0 # _ \<Rightarrow>
                   if brickSize = 0 then Inr []
                   else Inr (bricks (foldl (renko_step brickSize)
                          \<lparr>bricks = [],
                           currentBrickPrice =
                             fl (real_of_int \<lfloor>fl (close d0 / brickSize)\<rfloor> * brickSize),
                           brickTime = fl (real_of_int (date d0) / 1000)\<rparr>
                          cleanData))))"

subsection \<open>Point-and-Figure column builder\<close>

text \<open>
  The body of the loop of \<^verbatim>\<open>calculatePointFigure\<close> for bar \<open>i\<close>. The source keeps
  \<^verbatim>\<open>currentColumn\<close>, which is \<^verbatim>\<open>null\<close> before the first bar and afterwards the
  very object pushed last onto \<^verbatim>\<open>columns\<close>: a push onto its boxes changes the last
  element of \<^verbatim>\<open>columns\<close>. The state is therefore the list of columns alone.

  \<^verbatim>\<open>lastBox\<close> of a column without boxes is \<^verbatim>\<open>undefined\<close>; every comparison
  with it is false and the bar changes nothing. Box indices are integers, so the model
  stands for \<open>boxSize \<noteq> 0\<close> (with \<open>boxSize = 0\<close> the source's indices are infinite
  or \<open>NaN\<close>).
\<close>

definition pf_step :: "real \<Rightarrow> real \<Rightarrow> real \<Rightarrow> PFColumn list \<Rightarrow> nat \<times> PriceBar \<Rightarrow> PFColumn list" where
  "pf_step boxSize reversalAmount currentPrice columns ib =
     (let i = fst ib; high = high (snd ib); low = low (snd ib)
      in if columns = []
         then [\<lparr>type = X, boxes = [\<lfloor>currentPrice / boxSize\<rfloor>], startIndex = i\<rparr>]
         else
           (let currentColumn = last columns
            in if boxes currentColumn = [] then columns
               else
                 (let lastBox = last (boxes currentColumn)
                  in if type currentColumn = X
                     then
                       (let newHighBox = \<lfloor>high / boxSize\<rfloor>
                        in if newHighBox > lastBox
                           then butlast columns @
                             [currentColumn\<lparr>boxes := boxes currentColumn @ [lastBox + 1..newHighBox]\<rparr>]
                           else if real_of_int lastBox * boxSize - low \<ge> boxSize * reversalAmount
                           then
                             (let newLowBox = \<lfloor>low / boxSize\<rfloor>
                              in columns @
                                [\<lparr>type = O', boxes = rev [newLowBox..lastBox - 1], startIndex = i\<rparr>])
                           else columns)
                     else
                       (let newLowBox = \<lfloor>low / boxSize\<rfloor>
                        in if newLowBox < lastBox
                           then butlast columns @
                             [currentColumn\<lparr>boxes := boxes currentColumn @ rev [newLowBox..lastBox - 1]\<rparr>]
                           else if high - real_of_int lastBox * boxSize \<ge> boxSize * reversalAmount
                           then
                             (let newHighBox = \<lfloor>high / boxSize\<rfloor>
                              in columns @
                                [\<lparr>type = X, boxes = [lastBox + 1..newHighBox], startIndex = i\<rparr>])
                           else columns))))"

definition calculatePointFigure :: "PriceBar list \<Rightarrow> real \<Rightarrow> real \<Rightarrow> PFColumn list" where
  "calculatePointFigure priceData boxSize reversalAmount =
     (case priceData of
        [] \<Rightarrow> []
      | d0 # _ \<Rightarrow>
          foldl (pf_step boxSize reversalAmount (close d0)) []
            (zip [0..<length priceData] priceData))"

subsection \<open>Volume profile\<close>

text \<open>
  \<^verbatim>\<open>Math.min(Math.floor((d.close - minPrice) / binSize), bins - 1)\<close>, followed by
  the test \<^verbatim>\<open>binIndex >= 0 && binIndex < bins\<close>: \<open>None\<close> is an index that fails the
  test because it is \<open>NaN\<close> or \<open>-Infinity\<close>. With \<open>binSize = 0\<close> the quotient is
  \<open>NaN\<close> for a close at \<open>minPrice\<close>, \<open>Infinity\<close> above it and \<open>-Infinity\<close> below.
\<close>

definition binIndex :: "real \<Rightarrow> real \<Rightarrow> int \<Rightarrow> real \<Rightarrow> int option" where
  "binIndex minPrice binSize bins c =
     (if binSize = 0
      then (if c > minPrice then Some (bins - 1) else None)
      else Some (min \<lfloor>(c - minPrice) / binSize\<rfloor> (bins - 1)))"

text \<open>\<^verbatim>\<open>volumeBins[binIndex].volume += d.volume\<close> under the range test.\<close>

definition accumulate :: "real \<Rightarrow> real \<Rightarrow> int \<Rightarrow> VolumeBin list \<Rightarrow> PriceBar \<Rightarrow> VolumeBin list" where
  "accumulate minPrice binSize bins volumeBins d =
     (case binIndex minPrice binSize bins (close d) of
        None \<Rightarrow> volumeBins
      | Some k \<Rightarrow>
          if k \<ge> 0 \<and> k < bins
          then volumeBins[nat k := (volumeBins ! nat k)\<lparr>VolumeBin.volume :=
                 VolumeBin.volume (volumeBins ! nat k) + volume d\<rparr>]
          else volumeBins)"

text \<open>
  \<^verbatim>\<open>(bin.volume / maxVolume) * (canvas.width - 60)\<close> with a canvas 200 wide:
  not a finite number when \<open>maxVolume = 0\<close>.
\<close>

definition barWidth :: "real \<Rightarrow> VolumeBin \<Rightarrow> real option" where
  "barWidth maxVolume b =
     (if maxVolume = 0 then None else Some (VolumeBin.volume b / maxVolume * (200 - 60)))"

record profile =
  volumeBins :: "VolumeBin list"
  barWidths :: "real option list"
  pocBin :: VolumeBin

text \<open>
  The data \<^verbatim>\<open>drawVolumeProfile\<close> computes and draws: the buckets, the width of each
  bar and the point of control. The canvas calls are left out, and the model stands for
  a canvas that exists.

  With \<open>bins \<le> 0\<close> no bucket is created, no bar passes the range test, and
  \<^verbatim>\<open>volumeBins.reduce\<close> on the empty array with no initial value throws a
  \<open>TypeError\<close>. With no bars \<^verbatim>\<open>Math.min()\<close> is \<open>Infinity\<close> and every price level
  and bar width is \<open>NaN\<close>.
\<close>

definition drawVolumeProfile :: "PriceBar list \<Rightarrow> int \<Rightarrow> js_error + profile" where
  "drawVolumeProfile priceData bins =
     (if bins \<le> 0 then Inl TypeError
      else if priceData = []
      then Inr \<lparr>volumeBins = replicate (nat bins) \<lparr>price = None, volume = 0\<rparr>,
                barWidths = replicate (nat bins) None,
                pocBin = \<lparr>price = None, volume = 0\<rparr>\<rparr>
      else
        (let prices = map close priceData;
             minPrice = Min (set prices);
             maxPrice = Max (set prices);
             priceRange = maxPrice - minPrice;
             binSize = priceRange / real_of_int bins;
             bins0 = map (\<lambda>i. \<lparr>price = Some (minPrice + real i * binSize + binSize / 2),
                                  volume = 0\<rparr>) [0..<nat bins];
             vbins = foldl (accumulate minPrice binSize bins) bins0 priceData;
             maxVolume = Max (set (map VolumeBin.volume vbins))
         in Inr \<lparr>volumeBins = vbins,
                  barWidths = map (barWidth maxVolume) vbins,
                  pocBin = foldl (\<lambda>mx b. if VolumeBin.volume b > VolumeBin.volume mx then b else mx)
                             (hd vbins) (tl vbins)\<rparr>))"

subsection \<open>VWAP and bands\<close>

text \<open>
  Division and square root of the source, rounded, with \<open>None\<close> for a result that is not
  a finite number. Once such a value enters \<^verbatim>\<open>cumulativeSquaredDiff\<close> it stays.
  \<^verbatim>\<open>Math.pow(x, 2)\<close> is read as the rounded product \<open>x * x\<close>.
\<close>

definition js_div :: "real \<Rightarrow> real \<Rightarrow> real option" where
  "js_div a b = (if b = 0 then None else Some (fl (a / b)))"

definition js_sqrt :: "real \<Rightarrow> real option" where
  "js_sqrt a = (if a < 0 then None else Some (fl (sqrt a)))"

text \<open>\<^verbatim>\<open>const typicalPrice = (d.high + d.low + d.close) / 3\<close>.\<close>

definition typicalPrice :: "PriceBar \<Rightarrow> real" where
  "typicalPrice d = fl (fl (fl (high d + low d) + close d) / 3)"

record vwap_state =
  cumulativePV :: real
  cumulativeVolume :: real
  cumulativeSquaredDiff :: "real option"
  vwap :: "LineData list"
  upperBand :: "LineData list"
  lowerBand :: "LineData list"

text \<open>The callback of \<^verbatim>\<open>priceData.forEach\<close> in \<^verbatim>\<open>calculateVWAP\<close>.\<close>

definition vwap_step :: "vwap_state \<Rightarrow> PriceBar \<Rightarrow> vwap_state" where
  "vwap_step s d =
     (let pv = fl (typicalPrice d * volume d);
          cumulativePV = fl (cumulativePV s + pv);
          cumulativeVolume = fl (cumulativeVolume s + volume d);
          vwapValue = js_div cumulativePV cumulativeVolume;
          time = fl (real_of_int (date d) / 1000);
          squaredDiff =
            map_option (\<lambda>v. fl (fl (fl (typicalPrice d - v) * fl (typicalPrice d - v)) * volume d))
              vwapValue;
          cumulativeSquaredDiff =
            Option.bind (cumulativeSquaredDiff s) (\<lambda>c. map_option (\<lambda>q. fl (c + q)) squaredDiff);
          variance = Option.bind cumulativeSquaredDiff (\<lambda>c. js_div c cumulativeVolume);
          stdDev = Option.bind variance js_sqrt
      in \<lparr>cumulativePV = cumulativePV,
          cumulativeVolume = cumulativeVolume,
          cumulativeSquaredDiff = cumulativeSquaredDiff,
          vwap = vwap s @ [\<lparr>LineData.time = time, value = vwapValue\<rparr>],
          upperBand = vwap_state.upperBand s @
            [\<lparr>LineData.time = time,
              value = Option.bind vwapValue (\<lambda>v. map_option (\<lambda>sd. fl (v + fl (2 * sd))) stdDev)\<rparr>],
          lowerBand = vwap_state.lowerBand s @
            [\<lparr>LineData.time = time,
              value = Option.bind vwapValue (\<lambda>v. map_option (\<lambda>sd. fl (v - fl (2 * sd))) stdDev)\<rparr>]\<rparr>)"

definition calculateVWAP :: "PriceBar list \<Rightarrow> vwap_state" where
  "calculateVWAP priceData =
     foldl vwap_step
       \<lparr>cumulativePV = 0, cumulativeVolume = 0, cumulativeSquaredDiff = Some 0,
        vwap = [], upperBand = [], lowerBand = []\<rparr>
       priceData"

subsection \<open>Indicator engine\<close>

text \<open>
  The closures of \<^verbatim>\<open>TechnicalIndicators\<close> take the array \<^verbatim>\<open>prices\<close> they close
  over as their first argument. The periods are those of the call sites (20, 50, 14, 12,
  26 and 9): a period is a positive natural number.

  \<^verbatim>\<open>calculateSMA\<close>: \<^verbatim>\<open>prices.slice(idx - period + 1, idx + 1)\<close> is the
  \<open>period\<close> closes that end at \<open>idx\<close>.
\<close>

definition calculateSMA :: "real list \<Rightarrow> nat \<Rightarrow> real option list" where
  "calculateSMA prices period =
     map (\<lambda>idx. if int idx < int period - 1 then None
                else Some (foldl (\<lambda>a b. a + b) 0 (take period (drop (idx + 1 - period) prices))
                           / real period))
       [0..<length prices]"

text \<open>
  \<^verbatim>\<open>calculateRSI\<close>: the inner loop over \<open>j = i - period + 1, ..., i\<close> carries
  \<open>(gains, losses)\<close>; \<^verbatim>\<open>avgLoss || 1\<close> is \<open>1\<close> when \<open>avgLoss\<close> is zero.
\<close>

definition rsi_change :: "real list \<Rightarrow> real \<times> real \<Rightarrow> nat \<Rightarrow> real \<times> real" where
  "rsi_change prices gl j =
     (let change = prices ! j - prices ! (j - 1)
      in if change > 0 then (fst gl + change, snd gl) else (fst gl, snd gl - change))"

definition rsi_at :: "real list \<Rightarrow> nat \<Rightarrow> nat \<Rightarrow> real option" where
  "rsi_at prices period i =
     (if i < period then None
      else
        (let gl = foldl (rsi_change prices) (0, 0) [i - period + 1..<i + 1];
             avgGain = fst gl / real period;
             avgLoss = snd gl / real period;
             rs = avgGain / (if avgLoss = 0 then 1 else avgLoss)
         in Some (100 - 100 / (1 + rs))))"

definition calculateRSI :: "real list \<Rightarrow> nat \<Rightarrow> real option list" where
  "calculateRSI prices period = map (rsi_at prices period) [0..<length prices]"

text \<open>
  \<^verbatim>\<open>calculateEMA\<close>: seeded with \<^verbatim>\<open>data[0]\<close>. The engine returns before it
  computes anything when there are no bars, so the array is never empty here (on an empty
  array the source would return an array holding \<^verbatim>\<open>undefined\<close>).
\<close>

fun ema_loop :: "real \<Rightarrow> real \<Rightarrow> real list \<Rightarrow> real list" where
  "ema_loop k prev [] = []"
| "ema_loop k prev (x # xs) = (x * k + prev * (1 - k)) # ema_loop k (x * k + prev * (1 - k)) xs"

definition calculateEMA :: "real list \<Rightarrow> nat \<Rightarrow> real list" where
  "calculateEMA data period =
     (case data of
        [] \<Rightarrow> []
      | d0 # rest \<Rightarrow> d0 # ema_loop (2 / (real period + 1)) d0 rest)"

text \<open>
  \<^verbatim>\<open>calculateStdDev\<close>: \<^verbatim>\<open>sma20[idx] || 0\<close> is \<open>0\<close> for \<^verbatim>\<open>null\<close> and for
  zero.
\<close>

definition calculateStdDev :: "real list \<Rightarrow> real option list \<Rightarrow> nat \<Rightarrow> nat \<Rightarrow> real" where
  "calculateStdDev prices sma idx period =
     (if int idx < int period - 1 then 0
      else
        (let slice = take period (drop (idx + 1 - period) prices);
             mean = (case sma ! idx of None \<Rightarrow> 0 | Some m \<Rightarrow> m);
             variance = foldl (\<lambda>sum val. sum + (val - mean)\<^sup>2) 0 slice / real period
         in sqrt variance))"

text \<open>
  The band of a point: \<^verbatim>\<open>sma20[idx] ? sma20[idx] + 2 * sd : null\<close>, where
  \<^verbatim>\<open>null\<close> and zero are falsy.
\<close>

definition band :: "real option \<Rightarrow> real \<Rightarrow> real option" where
  "band m delta = (case m of None \<Rightarrow> None | Some v \<Rightarrow> if v = 0 then None else Some (v + delta))"

text \<open>
  The memoised \<^verbatim>\<open>indicators\<close>: \<^verbatim>\<open>null\<close> without bars, otherwise
  \<^verbatim>\<open>chartData\<close>, computed from \<^verbatim>\<open>data.data.slice(-100)\<close>.
\<close>

definition limitedData :: "PriceBar list \<Rightarrow> PriceBar list" where
  "limitedData bars = drop (length bars - 100) bars"

definition indicators :: "PriceBar list \<Rightarrow> ChartPoint list option" where
  "indicators bars =
     (if bars = [] then None
      else
        (let prices = map close (limitedData bars);
             ema12 = calculateEMA prices 12;
             ema26 = calculateEMA prices 26;
             macdLine = map (\<lambda>idx. ema12 ! idx - ema26 ! idx) [0..<length ema12];
             signalLine = calculateEMA macdLine 9;
             sma20 = calculateSMA prices 20
         in Some (map (\<lambda>idx.
              \<lparr>ChartPoint.date = date (limitedData bars ! idx),
               price = close (limitedData bars ! idx),
               sma20 = sma20 ! idx,
               sma50 = calculateSMA prices 50 ! idx,
               rsi = calculateRSI prices 14 ! idx,
               macd = macdLine ! idx,
               signal = signalLine ! idx,
               upperBand = band (sma20 ! idx) (2 * calculateStdDev prices sma20 idx 20),
               lowerBand = band (sma20 ! idx) (- (2 * calculateStdDev prices sma20 idx 20))\<rparr>)
            [0..<length (limitedData bars)])))"

section \<open>Invariants of the loops\<close>

text \<open>
  The predicates below are used in the proofs only. A brick is well formed when it closes
  at the double nearest to its open plus or minus \<open>brickSize\<close> and its wicks end at the
  body; a brick list is chained when each brick opens where the one before it closed.
\<close>

definition brick_ok :: "real \<Rightarrow> CandlestickData \<Rightarrow> bool" where
  "brick_ok brickSize b \<longleftrightarrow>
     (\<exists>direction \<in> {1, - 1}.
        CandlestickData.close b = fl (CandlestickData.open b + fl (direction * brickSize))) \<and>
     CandlestickData.high b = max (CandlestickData.open b) (CandlestickData.close b) \<and>
     CandlestickData.low b = min (CandlestickData.open b) (CandlestickData.close b)"

fun chained :: "CandlestickData list \<Rightarrow> bool" where
  "chained [] = True"
| "chained [b] = True"
| "chained (b # c # r) = (CandlestickData.open c = CandlestickData.close b \<and> chained (c # r))"

definition renko_inv :: "real \<Rightarrow> renko_state \<Rightarrow> bool" where
  "renko_inv brickSize s \<longleftrightarrow>
     (\<forall>b \<in> set (bricks s). brick_ok brickSize b) \<and> chained (bricks s) \<and>
     (bricks s \<noteq> [] \<longrightarrow> CandlestickData.close (last (bricks s)) = currentBrickPrice s)"







text \<open>
  The first column of the result: an \<open>X\<close> column that starts at bar 0 and whose first
  box is \<open>b0\<close>.
\<close>

definition pf_first :: "int \<Rightarrow> PFColumn list \<Rightarrow> bool" where
  "pf_first b0 cols \<longleftrightarrow>
     cols \<noteq> [] \<and> type (hd cols) = X \<and> startIndex (hd cols) = 0 \<and>
     boxes (hd cols) \<noteq> [] \<and> hd (boxes (hd cols)) = b0"

section \<open>Double precision\<close>

text \<open>
  Rounding to a double preserves the sign, moves a number by at most the fraction
  \<open>1 / 2 ^ 53\<close> of its magnitude, and leaves an integer below \<open>2 ^ 53\<close> unchanged.
\<close>

lemma expo_bounds:
  assumes "x \<noteq> 0"
  shows "2 powi expo x \<le> \<bar>x\<bar> \<and> \<bar>x\<bar> < 2 powi (expo x + 1)"
proof (cases "\<bar>x\<bar> \<ge> 1")
  case True
  define n where "n = \<lfloor>\<bar>x\<bar>\<rfloor>"
  have n1: "1 \<le> n" using True by (simp add: n_def)
  have b: "2 ^ nat (bitlen n - 1) \<le> n" "n < 2 ^ nat (bitlen n)"
    using bitlen_bounds [of n] n1 by auto
  have bl: "1 \<le> bitlen n"
  proof (rule ccontr)
    assume "\<not> 1 \<le> bitlen n"
    then have "nat (bitlen n) = 0" by simp
    then show False using b(2) n1 by simp
  qed
  have e: "expo x = bitlen n - 1" using True by (simp add: expo_def n_def)
  have "(2::real) powi (bitlen n - 1) = 2 ^ nat (bitlen n - 1)"
    using bl by (simp add: power_int_nonneg_exp)
  also have "\<dots> = real_of_int (2 ^ nat (bitlen n - 1))" by simp
  also have "\<dots> \<le> real_of_int n" using b(1) by (simp only: of_int_le_iff)
  also have "\<dots> \<le> \<bar>x\<bar>" by (simp add: n_def)
  finally have lo: "2 powi expo x \<le> \<bar>x\<bar>" by (simp add: e)
  have "n + 1 \<le> 2 ^ nat (bitlen n)" using b(2) by simp
  then have "real_of_int (n + 1) \<le> real_of_int (2 ^ nat (bitlen n))"
    by (simp only: of_int_le_iff)
  moreover have "\<bar>x\<bar> < real_of_int (n + 1)" by (simp add: n_def)
  ultimately have "\<bar>x\<bar> < 2 ^ nat (bitlen n)" by simp
  also have "\<dots> = (2::real) powi (bitlen n)"
    using bl by (simp add: power_int_nonneg_exp)
  finally have hi: "\<bar>x\<bar> < 2 powi (expo x + 1)" by (simp add: e)
  show ?thesis using lo hi by simp
next
  case False
  define y where "y = 1 / \<bar>x\<bar>"
  define m where "m = \<lceil>y\<rceil> - 1"
  have xp: "0 < \<bar>x\<bar>" using assms by simp
  have y1: "1 < y" using False xp by (simp add: y_def)
  then have "2 \<le> \<lceil>y\<rceil>" by (simp add: le_ceiling_iff)
  then have m1: "1 \<le> m" by (simp add: m_def)
  have b: "2 ^ nat (bitlen m - 1) \<le> m" "m < 2 ^ nat (bitlen m)"
    using bitlen_bounds [of m] m1 by auto
  have bl: "1 \<le> bitlen m"
  proof (rule ccontr)
    assume "\<not> 1 \<le> bitlen m"
    then have "nat (bitlen m) = 0" by simp
    then show False using b(2) m1 by simp
  qed
  have e: "expo x = - bitlen m" using False by (simp add: expo_def m_def y_def)
  have my: "real_of_int m < y" "y \<le> real_of_int m + 1"
    using ceiling_correct [of y] by (simp_all add: m_def)
  have "m + 1 \<le> 2 ^ nat (bitlen m)" using b(2) by simp
  then have "real_of_int (m + 1) \<le> real_of_int (2 ^ nat (bitlen m))"
    by (simp only: of_int_le_iff)
  then have "y \<le> 2 ^ nat (bitlen m)" using my(2) by simp
  then have "y \<le> 2 powi bitlen m" using bl by (simp add: power_int_nonneg_exp)
  then have "1 / 2 powi bitlen m \<le> 1 / y"
    using y1 by (intro divide_left_mono) auto
  then have lo: "2 powi expo x \<le> \<bar>x\<bar>"
    using xp by (simp add: e power_int_minus_divide y_def)
  have "real_of_int (2 ^ nat (bitlen m - 1)) \<le> real_of_int m"
    using b(1) by (simp only: of_int_le_iff)
  then have "(2::real) ^ nat (bitlen m - 1) \<le> real_of_int m" by simp
  then have "2 ^ nat (bitlen m - 1) < y" using my(1) by linarith
  then have "2 powi (bitlen m - 1) < y" using bl by (simp add: power_int_nonneg_exp)
  then have "1 / y < 1 / 2 powi (bitlen m - 1)"
    using y1 by (intro divide_strict_left_mono mult_pos_pos) auto
  then have hi: "\<bar>x\<bar> < 2 powi (expo x + 1)"
    using xp power_int_minus_divide [of "2::real" "bitlen m - 1"] by (simp add: e y_def)
  show ?thesis using lo hi by simp
qed

lemma rne_error: "\<bar>real_of_int (rne y) - y\<bar> \<le> 1 / 2"
proof -
  have "0 \<le> y - real_of_int \<lfloor>y\<rfloor>" "y - real_of_int \<lfloor>y\<rfloor> < 1" by linarith+
  then show ?thesis by (auto simp: rne_def Let_def abs_le_iff)
qed


lemma rne_nonneg: "0 \<le> y \<Longrightarrow> 0 \<le> rne y"
  by (auto simp: rne_def Let_def)

lemma rne_nonpos:
  assumes "y \<le> 0"
  shows "rne y \<le> 0"
proof -
  have f: "\<lfloor>y\<rfloor> \<le> 0" using assms by simp
  have "\<lfloor>y\<rfloor> \<le> - 1" if "y - real_of_int \<lfloor>y\<rfloor> \<ge> 1 / 2"
  proof -
    have "y < 0"
    proof (rule ccontr)
      assume "\<not> y < 0"
      then have "y = 0" using assms by simp
      then show False using that by simp
    qed
    then show ?thesis by (simp add: floor_le_iff)
  qed
  then show ?thesis using f by (auto simp: rne_def Let_def)
qed

lemma fl_zero [simp]: "fl 0 = 0"
  by (simp add: fl_def)

lemma fl_nonneg: "0 \<le> x \<Longrightarrow> 0 \<le> fl x"
  by (auto simp: fl_def Let_def intro!: mult_nonneg_nonneg rne_nonneg)

lemma fl_nonpos: "x \<le> 0 \<Longrightarrow> fl x \<le> 0"
proof -
  assume x: "x \<le> 0"
  have "rne (x / 2 powi e) \<le> 0" for e
    using x by (intro rne_nonpos) (simp add: divide_nonpos_pos)
  then show ?thesis
    by (auto simp: fl_def Let_def mult_le_0_iff)
qed

lemma fl_error: "\<bar>fl x - x\<bar> \<le> \<bar>x\<bar> / 2 ^ 53"
proof (cases "x = 0")
  case True
  then show ?thesis by simp
next
  case False
  define e where "e = expo x - 52"
  define p where "p = (2::real) powi e"
  have pp: "0 < p" by (simp add: p_def)
  have "fl x - x = (real_of_int (rne (x / p)) - x / p) * p"
    using False pp by (simp add: fl_def Let_def e_def p_def algebra_simps)
  then have "\<bar>fl x - x\<bar> = \<bar>real_of_int (rne (x / p)) - x / p\<bar> * p"
    using pp by (simp add: abs_mult)
  also have "\<dots> \<le> 1 / 2 * p"
    using pp rne_error [of "x / p"] by (intro mult_right_mono) auto
  also have "\<dots> = 2 powi expo x / 2 ^ 53"
  proof -
    have "(2::real) powi expo x = 2 powi (e + 52)" by (simp add: e_def)
    also have "\<dots> = p * 2 ^ 52"
      unfolding p_def by (subst power_int_add) auto
    finally show ?thesis by simp
  qed
  also have "\<dots> \<le> \<bar>x\<bar> / 2 ^ 53"
    using expo_bounds [OF False] by (intro divide_right_mono) auto
  finally show ?thesis .
qed


lemma fl_lower:
  assumes "0 \<le> x"
  shows "(1 - 1 / 2 ^ 53) * x \<le> fl x"
proof -
  have "\<bar>fl x - x\<bar> \<le> x / 2 ^ 53" using fl_error [of x] assms by simp
  moreover have "(1 - 1 / 2 ^ 53) * x = x - x / 2 ^ 53" by (simp add: algebra_simps)
  ultimately show ?thesis by linarith
qed

lemma fl_upper:
  assumes "0 \<le> x"
  shows "fl x \<le> (1 + 1 / 2 ^ 53) * x"
proof -
  have "\<bar>fl x - x\<bar> \<le> x / 2 ^ 53" using fl_error [of x] assms by simp
  moreover have "(1 + 1 / 2 ^ 53) * x = x + x / 2 ^ 53" by (simp add: algebra_simps)
  ultimately show ?thesis by linarith
qed




section \<open>Series normalizer\<close>

lemma map_set_keys: "fst ` set (map_set m k v) = insert k (fst ` set m)"
  by (induction m k v rule: map_set.induct) auto

lemma foldl_map_set_keys:
  "fst ` set (foldl (\<lambda>m item. map_set m (f item) item) m xs) = fst ` set m \<union> f ` set xs"
  by (induction xs arbitrary: m) (auto simp: map_set_keys)

lemma sortAndDeduplicateData_nonempty:
  "priceData \<noteq> [] \<Longrightarrow> sortAndDeduplicateData priceData \<noteq> []"
proof -
  assume ne: "priceData \<noteq> []"
  let ?m = "foldl (\<lambda>m item. map_set m (date item) item) [] (sort_key date priceData)"
  have "fst ` set ?m = date ` set priceData"
    by (simp add: foldl_map_set_keys)
  with ne have "set ?m \<noteq> {}" by auto
  then show ?thesis by (simp add: sortAndDeduplicateData_def)
qed

lemma sort_key_cong_filter:
  assumes "mset xs = mset ys"
    and "\<And>t. filter (\<lambda>b. f b = t) xs = filter (\<lambda>b. f b = t) ys"
  shows "sort_key f xs = sort_key f ys"
proof (rule properties_for_sort_key)
  show "mset (sort_key f ys) = mset xs" using assms(1) by simp
  show "sorted (map f (sort_key f ys))" by simp
  fix k assume "k \<in> set (sort_key f ys)"
  have "filter (\<lambda>x. f k = f x) (sort_key f ys) = filter (\<lambda>x. f x = f k) (sort_key f ys)"
    by (rule filter_cong) auto
  also have "\<dots> = filter (\<lambda>x. f x = f k) ys" by (rule sort_key_stable)
  also have "\<dots> = filter (\<lambda>x. f x = f k) xs" using assms(2) [of "f k"] by simp
  also have "\<dots> = filter (\<lambda>x. f k = f x) xs" by (rule filter_cong) auto
  finally show "filter (\<lambda>x. f k = f x) (sort_key f ys) = filter (\<lambda>x. f k = f x) xs" .
qed

text \<open>
  What the normalizer returns: for each timestamp of the input, in ascending order, the
  last bar of the input that carries it.
\<close>

lemma map_set_map_present:
  "k \<in> set keys \<Longrightarrow> distinct keys \<Longrightarrow>
     map_set (map (\<lambda>t. (t, h t)) keys) k v = map (\<lambda>t. (t, if t = k then v else h t)) keys"
proof (induction keys)
  case Nil
  then show ?case by simp
next
  case (Cons a keys)
  show ?case
  proof (cases "a = k")
    case True
    then have "k \<notin> set keys" using Cons.prems by simp
    then have "map (\<lambda>t. (t, if t = k then v else h t)) keys = map (\<lambda>t. (t, h t)) keys"
      by (intro map_cong) auto
    then show ?thesis using True by simp
  next
    case False
    then show ?thesis using Cons by simp
  qed
qed

lemma map_set_map_absent:
  "k \<notin> set keys \<Longrightarrow>
     map_set (map (\<lambda>t. (t, h t)) keys) k v = map (\<lambda>t. (t, h t)) keys @ [(k, v)]"
  by (induction keys) auto

lemma sorted_list_of_set_insert_greater:
  fixes k :: "'a::linorder"
  assumes "finite S" and "\<forall>x \<in> S. x < k"
  shows "sorted_list_of_set (insert k S) = sorted_list_of_set S @ [k]"
proof -
  have "sorted (sorted_list_of_set S @ [k])"
    using assms by (auto simp: sorted_append less_imp_le)
  moreover have "distinct (sorted_list_of_set S @ [k])"
    using assms by auto
  moreover have "set (sorted_list_of_set S @ [k]) = insert k S"
    using assms by auto
  ultimately show ?thesis
    by (metis sorted_list_of_set.idem_if_sorted_distinct)
qed

lemma foldl_map_set_sorted:
  fixes f :: "'a \<Rightarrow> 'k::linorder"
  shows "sorted (map f ys) \<Longrightarrow>
     foldl (\<lambda>m x. map_set m (f x) x) [] ys
       = map (\<lambda>t. (t, last (filter (\<lambda>b. f b = t) ys))) (sorted_list_of_set (f ` set ys))"
proof (induction ys rule: rev_induct)
  case Nil
  then show ?case by simp
next
  case (snoc y ys)
  have so: "sorted (map f ys)" and ge: "\<forall>x \<in> set ys. f x \<le> f y"
    using snoc.prems by (auto simp: sorted_append)
  let ?keys = "sorted_list_of_set (f ` set ys)"
  let ?h = "\<lambda>t. last (filter (\<lambda>b. f b = t) ys)"
  let ?h' = "\<lambda>t. last (filter (\<lambda>b. f b = t) (ys @ [y]))"
  have ih: "foldl (\<lambda>m x. map_set m (f x) x) [] ys = map (\<lambda>t. (t, ?h t)) ?keys"
    using snoc.IH [OF so] .
  have h': "?h' t = (if t = f y then y else ?h t)" for t by simp
  show ?case
  proof (cases "f y \<in> f ` set ys")
    case True
    then have ins: "insert (f y) (f ` set ys) = f ` set ys" by auto
    have "map_set (map (\<lambda>t. (t, ?h t)) ?keys) (f y) y
        = map (\<lambda>t. (t, if t = f y then y else ?h t)) ?keys"
      using True by (intro map_set_map_present) auto
    then show ?thesis by (simp add: ih ins h' del: filter_append)
  next
    case False
    have lt: "\<forall>x \<in> f ` set ys. x < f y"
    proof
      fix x assume x: "x \<in> f ` set ys"
      then have "x \<le> f y" using ge by auto
      moreover have "x \<noteq> f y" using x False by blast
      ultimately show "x < f y" by simp
    qed
    have keys: "sorted_list_of_set (insert (f y) (f ` set ys)) = ?keys @ [f y]"
      using lt by (intro sorted_list_of_set_insert_greater) auto
    have "map_set (map (\<lambda>t. (t, ?h t)) ?keys) (f y) y
        = map (\<lambda>t. (t, ?h t)) ?keys @ [(f y, y)]"
      using False by (intro map_set_map_absent) auto
    moreover have "?h' t = ?h t" if "t \<in> set ?keys" for t
    proof -
      have "t \<in> f ` set ys" using that by simp
      then have "t \<noteq> f y" using False by blast
      then show ?thesis by (simp only: h' if_False)
    qed
    then have "map (\<lambda>t. (t, ?h' t)) ?keys = map (\<lambda>t. (t, ?h t)) ?keys"
      by (intro map_cong) auto
    ultimately show ?thesis by (simp add: ih keys h' del: filter_append)
  qed
qed

lemma sortAndDeduplicateData_eq:
  "sortAndDeduplicateData xs
     = map (\<lambda>t. last (filter (\<lambda>b. date b = t) xs)) (sorted_list_of_set (date ` set xs))"
proof -
  have "foldl (\<lambda>m x. map_set m (date x) x) [] (sort_key date xs)
      = map (\<lambda>t. (t, last (filter (\<lambda>b. date b = t) (sort_key date xs))))
          (sorted_list_of_set (date ` set (sort_key date xs)))"
    by (rule foldl_map_set_sorted) simp
  then show ?thesis
    by (simp add: sortAndDeduplicateData_def sort_key_stable comp_def)
qed

text \<open>
  Claim C4. The normalizer sorts by timestamp with a stable sort and keeps, for each
  timestamp, the bar stored last. Two inputs with the same bars therefore give the same
  output when they list the bars of every timestamp in the same relative order; this
  covers every pair of permutations of a series whose timestamps are distinct. The output
  holds, for each timestamp in ascending order, the last bar of the input with that
  timestamp. Two permutations that order the bars of one timestamp differently give
  different outputs, as the example after the theorem shows.
\<close>

theorem normalizer_order_independent:
  assumes "mset xs = mset ys"
    and "\<forall>t. filter (\<lambda>b. date b = t) xs = filter (\<lambda>b. date b = t) ys"
  shows "sortAndDeduplicateData xs = sortAndDeduplicateData ys \<and>
     sortAndDeduplicateData xs
       = map (\<lambda>t. last (filter (\<lambda>b. date b = t) xs)) (sorted_list_of_set (date ` set xs))"
proof
  show "sortAndDeduplicateData xs = sortAndDeduplicateData ys"
    using sort_key_cong_filter [of xs ys date] assms
    by (simp add: sortAndDeduplicateData_def)
  show "sortAndDeduplicateData xs
       = map (\<lambda>t. last (filter (\<lambda>b. date b = t) xs)) (sorted_list_of_set (date ` set xs))"
    by (rule sortAndDeduplicateData_eq)
qed

theorem normalizer_order_independent_witness:
  "mset [\<lparr>date = 2, open = 1, high = 1, low = 1, close = 1, volume = 1\<rparr>,
         \<lparr>date = 1, open = 1, high = 1, low = 1, close = 2, volume = 1\<rparr>,
         \<lparr>date = 2, open = 1, high = 1, low = 1, close = 3, volume = 1\<rparr>]
   = mset [\<lparr>date = 1, open = 1, high = 1, low = 1, close = 2, volume = 1\<rparr>,
           \<lparr>date = 2, open = 1, high = 1, low = 1, close = 1, volume = 1\<rparr>,
           \<lparr>date = 2, open = 1, high = 1, low = 1, close = 3, volume = 1\<rparr>] \<and>
   sortAndDeduplicateData
        [\<lparr>date = 2, open = 1, high = 1, low = 1, close = 1, volume = 1\<rparr>,
         \<lparr>date = 1, open = 1, high = 1, low = 1, close = 2, volume = 1\<rparr>,
         \<lparr>date = 2, open = 1, high = 1, low = 1, close = 3, volume = 1\<rparr>]
   = sortAndDeduplicateData
          [\<lparr>date = 1, open = 1, high = 1, low = 1, close = 2, volume = 1\<rparr>,
           \<lparr>date = 2, open = 1, high = 1, low = 1, close = 1, volume = 1\<rparr>,
           \<lparr>date = 2, open = 1, high = 1, low = 1, close = 3, volume = 1\<rparr>]"
  (is "mset ?xs = mset ?ys \<and> _")
proof -
  have h1: "mset ?xs = mset ?ys" by simp
  have h2: "\<forall>t. filter (\<lambda>b. date b = t) ?xs = filter (\<lambda>b. date b = t) ?ys" by simp
  have c: "sortAndDeduplicateData ?xs = sortAndDeduplicateData ?ys"
    using normalizer_order_independent [OF h1 h2] by (rule conjunct1)
  show ?thesis using h1 c by (rule conjI)
qed

theorem normalizer_permutation_counterexample:
  "mset [\<lparr>date = 1, open = 1, high = 1, low = 1, close = 1, volume = 1\<rparr>,
         \<lparr>date = 1, open = 1, high = 1, low = 1, close = 2, volume = 1\<rparr>]
   = mset [\<lparr>date = 1, open = 1, high = 1, low = 1, close = 2, volume = 1\<rparr>,
           \<lparr>date = 1, open = 1, high = 1, low = 1, close = 1, volume = 1\<rparr>] \<and>
   sortAndDeduplicateData
        [\<lparr>date = 1, open = 1, high = 1, low = 1, close = 1, volume = 1\<rparr>,
         \<lparr>date = 1, open = 1, high = 1, low = 1, close = 2, volume = 1\<rparr>]
   = [\<lparr>date = 1, open = 1, high = 1, low = 1, close = 2, volume = 1\<rparr>] \<and>
   sortAndDeduplicateData
        [\<lparr>date = 1, open = 1, high = 1, low = 1, close = 2, volume = 1\<rparr>,
         \<lparr>date = 1, open = 1, high = 1, low = 1, close = 1, volume = 1\<rparr>]
   = [\<lparr>date = 1, open = 1, high = 1, low = 1, close = 1, volume = 1\<rparr>] \<and>
   sortAndDeduplicateData
        [\<lparr>date = 1, open = 1, high = 1, low = 1, close = 1, volume = 1\<rparr>,
         \<lparr>date = 1, open = 1, high = 1, low = 1, close = 2, volume = 1\<rparr>]
   \<noteq> sortAndDeduplicateData
        [\<lparr>date = 1, open = 1, high = 1, low = 1, close = 2, volume = 1\<rparr>,
         \<lparr>date = 1, open = 1, high = 1, low = 1, close = 1, volume = 1\<rparr>]"
  by (simp add: sortAndDeduplicateData_def)

section \<open>Renko brick builder\<close>

lemma chained_snoc:
  "chained (bs @ [b]) \<longleftrightarrow>
     chained bs \<and> (bs \<noteq> [] \<longrightarrow> CandlestickData.open b = CandlestickData.close (last bs))"
  by (induction bs rule: chained.induct) auto

lemma chained_nth:
  "chained bs \<Longrightarrow> Suc k < length bs \<Longrightarrow>
     CandlestickData.open (bs ! Suc k) = CandlestickData.close (bs ! k)"
proof (induction bs arbitrary: k rule: chained.induct)
  case (3 b c r)
  then show ?case by (cases k) auto
qed auto

lemma renko_emit_inv:
  assumes "direction = 1 \<or> direction = - 1"
  shows "renko_inv brickSize s \<Longrightarrow> renko_inv brickSize (renko_emit brickSize direction j r s)"
proof (induction r arbitrary: j s)
  case 0
  then show ?case by simp
next
  case (Suc r)
  let ?c = "fl (currentBrickPrice s + fl (direction * brickSize))"
  let ?s = "s\<lparr>bricks := bricks s @
                 [\<lparr>time = fl (brickTime s + real j), open = currentBrickPrice s,
                   high = max (currentBrickPrice s) ?c, low = min (currentBrickPrice s) ?c,
                   close = ?c\<rparr>],
               currentBrickPrice := ?c\<rparr>"
  have "renko_inv brickSize ?s"
    using Suc.prems assms by (auto simp: renko_inv_def brick_ok_def chained_snoc)
  then have "renko_inv brickSize (renko_emit brickSize direction (Suc j) r ?s)"
    by (rule Suc.IH)
  then show ?case by (simp add: Let_def)
qed

lemma renko_emit_brickTime: "brickTime (renko_emit brickSize direction j r s) = brickTime s"
  by (induction r arbitrary: j s) (auto simp: Let_def)

lemma renko_step_inv:
  assumes "renko_inv brickSize s"
  shows "renko_inv brickSize (renko_step brickSize s d)"
proof -
  have "renko_inv brickSize (renko_emit brickSize (if c then 1 else - 1) 0 n s)" for c n
    using assms by (intro renko_emit_inv) auto
  then have "renko_inv brickSize
      ((renko_emit brickSize (if c then 1 else - 1) 0 n s)\<lparr>brickTime := t\<rparr>)" for c n t
    unfolding renko_inv_def by simp
  then show ?thesis using assms by (simp add: renko_step_def Let_def)
qed

lemma renko_foldl_inv:
  "renko_inv brickSize s \<Longrightarrow> renko_inv brickSize (foldl (renko_step brickSize) s ds)"
  by (induction ds arbitrary: s) (auto simp: renko_step_inv)

text \<open>
  Claim C9. For every input series and every \<open>brickSize > 0\<close> the builder returns a
  brick list (it never throws). Every brick closes at the double nearest to its open
  plus \<open>brickSize\<close> or to its open minus \<open>brickSize\<close>, so \<open>|close - open|\<close> equals
  \<open>brickSize\<close> up to one rounding, whose error is at most the fraction \<open>1 / 2 ^ 53\<close> of
  the exact sum; it has \<open>high = max open close\<close> and \<open>low = min open close\<close>; and it
  opens at the close of the brick before it. The example after the witness shows a brick
  whose body is not \<open>brickSize\<close> long.
\<close>

theorem renko_chained_rounded:
  assumes "0 < brickSize"
  shows "\<exists>bs. calculateRenkoBricks priceData brickSize = Inr bs \<and>
     (\<forall>b \<in> set bs.
         (\<exists>direction \<in> {1, - 1}.
            CandlestickData.close b = fl (CandlestickData.open b + fl (direction * brickSize)) \<and>
            \<bar>CandlestickData.close b - (CandlestickData.open b + fl (direction * brickSize))\<bar>
              \<le> \<bar>CandlestickData.open b + fl (direction * brickSize)\<bar> / 2 ^ 53) \<and>
         CandlestickData.high b = max (CandlestickData.open b) (CandlestickData.close b) \<and>
         CandlestickData.low b = min (CandlestickData.open b) (CandlestickData.close b)) \<and>
     (\<forall>k. Suc k < length bs \<longrightarrow>
         CandlestickData.open (bs ! Suc k) = CandlestickData.close (bs ! k))"
proof -
  have ok: "(\<exists>direction \<in> {1, - 1}.
         CandlestickData.close b = fl (CandlestickData.open b + fl (direction * brickSize)) \<and>
         \<bar>CandlestickData.close b - (CandlestickData.open b + fl (direction * brickSize))\<bar>
           \<le> \<bar>CandlestickData.open b + fl (direction * brickSize)\<bar> / 2 ^ 53) \<and>
      CandlestickData.high b = max (CandlestickData.open b) (CandlestickData.close b) \<and>
      CandlestickData.low b = min (CandlestickData.open b) (CandlestickData.close b)"
    if "brick_ok brickSize b" for b
    using that fl_error [of "CandlestickData.open b + fl (1 * brickSize)"]
      fl_error [of "CandlestickData.open b + fl (- 1 * brickSize)"]
    unfolding brick_ok_def by auto
  show ?thesis
  proof (cases "priceData = []")
    case True
    then show ?thesis by (simp add: calculateRenkoBricks_def)
  next
    case False
    obtain d0 ds where cd: "sortAndDeduplicateData priceData = d0 # ds"
      using sortAndDeduplicateData_nonempty [OF False]
      by (cases "sortAndDeduplicateData priceData") auto
    define s0 where "s0 = \<lparr>bricks = [],
                currentBrickPrice = fl (real_of_int \<lfloor>fl (close d0 / brickSize)\<rfloor> * brickSize),
                brickTime = fl (real_of_int (date d0) / 1000)\<rparr>"
    define s where "s = foldl (renko_step brickSize) s0 (sortAndDeduplicateData priceData)"
    have "renko_inv brickSize s0" by (simp add: renko_inv_def s0_def)
    then have inv: "renko_inv brickSize s"
      unfolding s_def by (rule renko_foldl_inv)
    have res: "calculateRenkoBricks priceData brickSize = Inr (bricks s)"
      using False assms cd by (simp add: calculateRenkoBricks_def s_def s0_def)
    have 1: "\<forall>b \<in> set (bricks s).
         (\<exists>direction \<in> {1, - 1}.
            CandlestickData.close b = fl (CandlestickData.open b + fl (direction * brickSize)) \<and>
            \<bar>CandlestickData.close b - (CandlestickData.open b + fl (direction * brickSize))\<bar>
              \<le> \<bar>CandlestickData.open b + fl (direction * brickSize)\<bar> / 2 ^ 53) \<and>
         CandlestickData.high b = max (CandlestickData.open b) (CandlestickData.close b) \<and>
         CandlestickData.low b = min (CandlestickData.open b) (CandlestickData.close b)"
    proof
      fix b assume "b \<in> set (bricks s)"
      then have "brick_ok brickSize b" using inv by (simp add: renko_inv_def)
      then show "(\<exists>direction \<in> {1, - 1}.
            CandlestickData.close b = fl (CandlestickData.open b + fl (direction * brickSize)) \<and>
            \<bar>CandlestickData.close b - (CandlestickData.open b + fl (direction * brickSize))\<bar>
              \<le> \<bar>CandlestickData.open b + fl (direction * brickSize)\<bar> / 2 ^ 53) \<and>
         CandlestickData.high b = max (CandlestickData.open b) (CandlestickData.close b) \<and>
         CandlestickData.low b = min (CandlestickData.open b) (CandlestickData.close b)"
        by (rule ok)
    qed
    have 2: "\<forall>k. Suc k < length (bricks s) \<longrightarrow>
        CandlestickData.open (bricks s ! Suc k) = CandlestickData.close (bricks s ! k)"
      using inv chained_nth [of "bricks s"] by (simp add: renko_inv_def)
    show ?thesis
      unfolding res by (rule exI [of _ "bricks s"]) (rule conjI [OF refl conjI [OF 1 2]])
  qed
qed

theorem renko_chained_rounded_witness:
  "(0::real) < 10 \<and>
   calculateRenkoBricks
     [\<lparr>date = 0, open = 100, high = 100, low = 100, close = 100, volume = 1\<rparr>,
      \<lparr>date = 1000, open = 100, high = 125, low = 100, close = 125, volume = 1\<rparr>,
      \<lparr>date = 2000, open = 125, high = 125, low = 95, close = 95, volume = 1\<rparr>] 10
     = Inr [\<lparr>time = 0, open = 100, high = 110, low = 100, close = 110\<rparr>,
            \<lparr>time = 1, open = 110, high = 120, low = 110, close = 120\<rparr>,
            \<lparr>time = 2, open = 120, high = 120, low = 110, close = 110\<rparr>,
            \<lparr>time = 3, open = 110, high = 110, low = 100, close = 100\<rparr>] \<and>
   (\<exists>bs. calculateRenkoBricks
       [\<lparr>date = 0, open = 100, high = 100, low = 100, close = 100, volume = 1\<rparr>,
        \<lparr>date = 1000, open = 100, high = 125, low = 100, close = 125, volume = 1\<rparr>,
        \<lparr>date = 2000, open = 125, high = 125, low = 95, close = 95, volume = 1\<rparr>] 10 = Inr bs \<and>
     (\<forall>b \<in> set bs.
         (\<exists>direction \<in> {1, - 1}.
            CandlestickData.close b = fl (CandlestickData.open b + fl (direction * 10)) \<and>
            \<bar>CandlestickData.close b - (CandlestickData.open b + fl (direction * 10))\<bar>
              \<le> \<bar>CandlestickData.open b + fl (direction * 10)\<bar> / 2 ^ 53) \<and>
         CandlestickData.high b = max (CandlestickData.open b) (CandlestickData.close b) \<and>
         CandlestickData.low b = min (CandlestickData.open b) (CandlestickData.close b)) \<and>
     (\<forall>k. Suc k < length bs \<longrightarrow>
         CandlestickData.open (bs ! Suc k) = CandlestickData.close (bs ! k)))"
proof -
  have h: "(0::real) < 10" by simp
  have e: "calculateRenkoBricks
     [\<lparr>date = 0, open = 100, high = 100, low = 100, close = 100, volume = 1\<rparr>,
      \<lparr>date = 1000, open = 100, high = 125, low = 100, close = 125, volume = 1\<rparr>,
      \<lparr>date = 2000, open = 125, high = 125, low = 95, close = 95, volume = 1\<rparr>] 10
     = Inr [\<lparr>time = 0, open = 100, high = 110, low = 100, close = 110\<rparr>,
            \<lparr>time = 1, open = 110, high = 120, low = 110, close = 120\<rparr>,
            \<lparr>time = 2, open = 120, high = 120, low = 110, close = 110\<rparr>,
            \<lparr>time = 3, open = 110, high = 110, low = 100, close = 100\<rparr>]"
    by code_simp
  show ?thesis
    by (rule conjI [OF h conjI [OF e renko_chained_rounded [OF h]]])
qed

text \<open>
  The closes \<open>0\<close> and \<open>0.45\<close> with \<open>brickSize = 0.1\<close> (the doubles nearest to these
  decimals): the third brick opens at \<open>0.2\<close> and closes at \<open>0.30000000000000004\<close>, so
  its body is longer than \<open>brickSize\<close>.
\<close>

theorem renko_uniform_counterexample:
  "calculateRenkoBricks
     [\<lparr>date = 0, open = 0, high = 0, low = 0, close = 0, volume = 1\<rparr>,
      \<lparr>date = 1000, open = 0, high = fl (45 / 100), low = 0, close = fl (45 / 100), volume = 1\<rparr>]
     (fl (1 / 10))
   = Inr [\<lparr>time = 0, open = 0,
            high = 3602879701896397 / 36028797018963968, low = 0,
            close = 3602879701896397 / 36028797018963968\<rparr>,
          \<lparr>time = 1, open = 3602879701896397 / 36028797018963968,
            high = 3602879701896397 / 18014398509481984,
            low = 3602879701896397 / 36028797018963968,
            close = 3602879701896397 / 18014398509481984\<rparr>,
          \<lparr>time = 2, open = 3602879701896397 / 18014398509481984,
            high = 1351079888211149 / 4503599627370496,
            low = 3602879701896397 / 18014398509481984,
            close = 1351079888211149 / 4503599627370496\<rparr>,
          \<lparr>time = 3, open = 1351079888211149 / 4503599627370496,
            high = 3602879701896397 / 9007199254740992,
            low = 1351079888211149 / 4503599627370496,
            close = 3602879701896397 / 9007199254740992\<rparr>] \<and>
   0 < fl (1 / 10) \<and>
   fl (1 / 10) = 3602879701896397 / 36028797018963968 \<and>
   \<bar>1351079888211149 / 4503599627370496 - 3602879701896397 / 18014398509481984\<bar>
     > fl (1 / 10)"
  by (intro conjI; code_simp)











lemma renko_step_nonpositive:
  assumes "brickSize < 0"
  shows "renko_step brickSize s d = s"
proof -
  have "\<bar>fl (close d - currentBrickPrice s)\<bar> / brickSize \<le> 0"
    using assms by (simp add: divide_nonneg_neg)
  then have "fl (\<bar>fl (close d - currentBrickPrice s)\<bar> / brickSize) \<le> 0"
    by (rule fl_nonpos)
  then have "\<lfloor>fl (\<bar>fl (close d - currentBrickPrice s)\<bar> / brickSize)\<rfloor> \<le> 0"
    by (simp add: floor_le_zero)
  then show ?thesis unfolding renko_step_def Let_def by simp
qed

lemma renko_foldl_nonpositive:
  "brickSize < 0 \<Longrightarrow> foldl (renko_step brickSize) s ds = s"
  by (induction ds arbitrary: s) (auto simp: renko_step_nonpositive)

theorem renko_nonpositive_brickSize:
  assumes "brickSize \<le> 0"
  shows "calculateRenkoBricks priceData brickSize = Inr []"
proof (cases "priceData = []")
  case True
  then show ?thesis by (simp add: calculateRenkoBricks_def)
next
  case False
  obtain d0 ds where cd: "sortAndDeduplicateData priceData = d0 # ds"
    using sortAndDeduplicateData_nonempty [OF False]
    by (cases "sortAndDeduplicateData priceData") auto
  show ?thesis
  proof (cases "brickSize = 0")
    case True
    then show ?thesis using False cd by (simp add: calculateRenkoBricks_def)
  next
    case f: False
    then have "brickSize < 0" using assms by simp
    then show ?thesis using False cd f
      by (simp add: calculateRenkoBricks_def renko_foldl_nonpositive renko_step_nonpositive
          del: foldl_Cons)
  qed
qed

section \<open>Point-and-Figure column builder\<close>













text \<open>The first column, for any box size.\<close>

lemma pf_first_replace_last:
  assumes "pf_first b0 cols"
  shows "pf_first b0 (butlast cols @ [(last cols)\<lparr>boxes := boxes (last cols) @ bs\<rparr>])"
proof (cases "butlast cols = []")
  case True
  then have "cols = [last cols]" using assms
    by (metis append_butlast_last_id append_Nil pf_first_def)
  then have "hd cols = last cols" by (metis list.sel(1))
  then show ?thesis using assms True by (simp add: pf_first_def)
next
  case False
  then have "hd (butlast cols @ [c]) = hd cols" for c
    using assms by (cases cols) (auto simp: pf_first_def)
  then show ?thesis using assms by (simp add: pf_first_def)
qed

lemma pf_first_append: "pf_first b0 cols \<Longrightarrow> pf_first b0 (cols @ [c])"
  by (simp add: pf_first_def)

lemma pf_step_first:
  assumes "pf_first b0 cols"
  shows "pf_first b0 (pf_step boxSize r p cols ib)"
proof -
  have ne: "cols \<noteq> []" using assms by (simp add: pf_first_def)
  show ?thesis
    using ne assms pf_first_replace_last [OF assms] pf_first_append [OF assms]
    by (simp add: pf_step_def Let_def)
qed

lemma pf_foldl_first:
  "pf_first b0 cols \<Longrightarrow> pf_first b0 (foldl (pf_step boxSize r p) cols ids)"
  by (induction ids arbitrary: cols) (auto simp: pf_step_first)

lemma calculatePointFigure_first:
  assumes "priceData \<noteq> []"
  shows "pf_first \<lfloor>close (hd priceData) / boxSize\<rfloor> (calculatePointFigure priceData boxSize r)"
proof -
  obtain d0 ds where pd: "priceData = d0 # ds" using assms by (cases priceData) auto
  have z: "zip [0..<length (d0 # ds)] (d0 # ds) = (0, d0) # zip [1..<Suc (length ds)] ds"
    by (simp add: upt_conv_Cons del: upt_Suc)
  have "pf_first \<lfloor>close d0 / boxSize\<rfloor> (pf_step boxSize r (close d0) [] (0, d0))"
    by (simp add: pf_step_def pf_first_def)
  then have "pf_first \<lfloor>close d0 / boxSize\<rfloor>
      (foldl (pf_step boxSize r (close d0)) (pf_step boxSize r (close d0) [] (0, d0))
         (zip [1..<Suc (length ds)] ds))"
    by (rule pf_foldl_first)
  then show ?thesis
    unfolding pd calculatePointFigure_def list.case z by simp
qed

section \<open>Volume profile\<close>

lemma accumulate_length:
  "length (accumulate minPrice binSize bins vb d) = length vb"
  by (simp add: accumulate_def split: option.splits)

lemma foldl_accumulate_length:
  "length (foldl (accumulate minPrice binSize bins) vb ds) = length vb"
  by (induction ds arbitrary: vb) (auto simp: accumulate_length)

lemma sum_list_update_add:
  "k < length xs \<Longrightarrow> sum_list (xs[k := xs ! k + v]) = sum_list xs + (v::real)"
proof (induction xs arbitrary: k)
  case Nil
  then show ?case by simp
next
  case (Cons x xs)
  then show ?case by (cases k) auto
qed

lemma sum_volume_update:
  assumes "k < length vb"
  shows "sum_list (map VolumeBin.volume
           (vb[k := (vb ! k)\<lparr>VolumeBin.volume := VolumeBin.volume (vb ! k) + v\<rparr>]))
         = sum_list (map VolumeBin.volume vb) + v"
  using assms sum_list_update_add [of k "map VolumeBin.volume vb" v]
  by (simp add: map_update)

lemma binIndex_in_range:
  assumes "0 < binSize" and "0 < bins" and "minPrice \<le> c"
  shows "\<exists>k. binIndex minPrice binSize bins c = Some k \<and> 0 \<le> k \<and> k < bins"
proof -
  have "0 \<le> (c - minPrice) / binSize" using assms by simp
  then have "0 \<le> \<lfloor>(c - minPrice) / binSize\<rfloor>" by simp
  then show ?thesis using assms by (simp add: binIndex_def min_def)
qed

lemma accumulate_sum:
  assumes "0 < binSize" and "0 < bins" and "minPrice \<le> close d" and "length vb = nat bins"
  shows "sum_list (map VolumeBin.volume (accumulate minPrice binSize bins vb d))
         = sum_list (map VolumeBin.volume vb) + volume d"
proof -
  obtain k where k: "binIndex minPrice binSize bins (close d) = Some k" "0 \<le> k" "k < bins"
    using binIndex_in_range [OF assms(1-3)] by blast
  then have "nat k < length vb" using assms(4) by simp
  then show ?thesis using k by (simp add: accumulate_def sum_volume_update)
qed

lemma foldl_accumulate_sum:
  assumes "0 < binSize" and "0 < bins"
  shows "\<forall>d \<in> set ds. minPrice \<le> close d \<Longrightarrow> length vb = nat bins \<Longrightarrow>
     sum_list (map VolumeBin.volume (foldl (accumulate minPrice binSize bins) vb ds))
     = sum_list (map VolumeBin.volume vb) + sum_list (map volume ds)"
proof (induction ds arbitrary: vb)
  case Nil
  then show ?case by simp
next
  case (Cons d ds)
  have 1: "sum_list (map VolumeBin.volume (accumulate minPrice binSize bins vb d))
      = sum_list (map VolumeBin.volume vb) + volume d"
    using Cons.prems assms by (intro accumulate_sum) auto
  have 2: "length (accumulate minPrice binSize bins vb d) = nat bins"
    using Cons.prems by (simp add: accumulate_length)
  have "\<forall>d \<in> set ds. minPrice \<le> close d" using Cons.prems by simp
  from Cons.IH [OF this 2] show ?case using 1 by simp
qed

lemma sum_list_zero_bins:
  "sum_list (map VolumeBin.volume (map (\<lambda>i. \<lparr>price = f i, volume = 0\<rparr>) is)) = 0"
  by (induction "is") auto

lemma volume_conserved_nonflat:
  assumes ne: "priceData \<noteq> []" and bins: "0 < bins"
    and nonflat: "Min (set (map close priceData)) < Max (set (map close priceData))"
  shows "\<exists>p. drawVolumeProfile priceData bins = Inr p \<and>
     length (volumeBins p) = nat bins \<and>
     sum_list (map VolumeBin.volume (volumeBins p)) = sum_list (map volume priceData)"
proof -
  define minPrice where "minPrice = Min (set (map close priceData))"
  define binSize where "binSize = (Max (set (map close priceData)) - minPrice) / real_of_int bins"
  define bins0 where "bins0 = map (\<lambda>i. \<lparr>price = Some (minPrice + real i * binSize + binSize / 2),
                                  volume = 0\<rparr>) [0..<nat bins]"
  define vbins where "vbins = foldl (accumulate minPrice binSize bins) bins0 priceData"
  have bs: "0 < binSize" using nonflat bins by (simp add: binSize_def minPrice_def)
  have ge: "\<forall>d \<in> set priceData. minPrice \<le> close d"
    by (simp add: minPrice_def)
  have l0: "length bins0 = nat bins" by (simp add: bins0_def)
  have s0: "sum_list (map VolumeBin.volume bins0) = 0"
    unfolding bins0_def by (rule sum_list_zero_bins)
  have "sum_list (map VolumeBin.volume vbins) = sum_list (map volume priceData)"
    unfolding vbins_def using foldl_accumulate_sum [OF bs bins ge l0] s0 by simp
  moreover have "length vbins = nat bins"
    by (simp add: vbins_def foldl_accumulate_length l0)
  moreover have "volumeBins (projr (drawVolumeProfile priceData bins)) = vbins"
    "isl (drawVolumeProfile priceData bins) = False"
    using ne bins
    by (simp_all add: drawVolumeProfile_def Let_def vbins_def bins0_def binSize_def minPrice_def)
  ultimately show ?thesis
    by (cases "drawVolumeProfile priceData bins") auto
qed

lemma accumulate_flat:
  "close d = minPrice \<Longrightarrow> accumulate minPrice 0 bins vb d = vb"
  by (simp add: accumulate_def binIndex_def)

lemma foldl_accumulate_flat:
  "\<forall>d \<in> set ds. close d = minPrice \<Longrightarrow> foldl (accumulate minPrice 0 bins) vb ds = vb"
  by (induction ds arbitrary: vb) (auto simp: accumulate_flat)

lemma volume_lost_flat:
  assumes ne: "priceData \<noteq> []" and bins: "0 < bins"
    and flat: "\<forall>d \<in> set priceData. close d = c"
  shows "\<exists>p. drawVolumeProfile priceData bins = Inr p \<and>
     volumeBins p = replicate (nat bins) \<lparr>price = Some c, volume = 0\<rparr> \<and>
     barWidths p = replicate (nat bins) None"
proof -
  have set: "set (map close priceData) = {c}" using ne flat by (cases priceData) auto
  have mn: "Min (set (map close priceData)) = c" "Max (set (map close priceData)) = c"
    unfolding set by simp_all
  have fl: "\<forall>d \<in> set priceData. close d = c" using flat .
  have b0: "map (\<lambda>i. \<lparr>price = Some c, volume = 0\<rparr>) [0..<nat bins]
      = replicate (nat bins) \<lparr>price = Some c, volume = 0\<rparr>"
    by (simp add: map_replicate_const)
  have mx: "Max (set (map VolumeBin.volume (replicate (nat bins) \<lparr>price = Some c, volume = 0\<rparr>))) = 0"
    using bins by simp
  show ?thesis
    using ne bins
    by (simp add: drawVolumeProfile_def Let_def mn foldl_accumulate_flat [OF fl] b0
        barWidth_def del: set_map)
qed

text \<open>
  Claim C2. A flat series has no special case in the source. On two bars that both close
  at 100, with volumes 5 and 7 and two buckets, the bin width is zero, the bucket index of
  every bar is \<open>NaN\<close>, no bar passes the range test, both buckets keep volume 0 and both
  bar widths are \<open>0 / 0\<close>, which is \<open>NaN\<close>: the volume of the series is assigned to no
  bucket. The lemma \<open>volume_lost_flat\<close> above shows the same for every flat series.
\<close>

theorem volume_profile_flat_series:
  "drawVolumeProfile
     [\<lparr>date = 0, open = 100, high = 100, low = 100, close = 100, volume = 5\<rparr>,
      \<lparr>date = 1000, open = 100, high = 100, low = 100, close = 100, volume = 7\<rparr>] 2
   = Inr \<lparr>volumeBins = [\<lparr>price = Some 100, volume = 0\<rparr>, \<lparr>price = Some 100, volume = 0\<rparr>],
          barWidths = [None, None],
          pocBin = \<lparr>price = Some 100, volume = 0\<rparr>\<rparr>"
  by (simp add: drawVolumeProfile_def accumulate_def binIndex_def barWidth_def Let_def
      numeral_2_eq_2)

text \<open>
  Claim C3. The volumes of the buckets do not always add up to the volumes of the bars: on
  three bars that all close at 250, with volumes 4, 6 and 9 and three buckets, the buckets
  hold 0 in total and the bars 19. For a series that is not flat, and a positive number
  of buckets, the two sums are equal (lemma \<open>volume_conserved_nonflat\<close> above).
\<close>

theorem volume_profile_flat_loses_volume:
  "drawVolumeProfile
     [\<lparr>date = 0, open = 250, high = 250, low = 250, close = 250, volume = 4\<rparr>,
      \<lparr>date = 1000, open = 250, high = 250, low = 250, close = 250, volume = 6\<rparr>,
      \<lparr>date = 2000, open = 250, high = 250, low = 250, close = 250, volume = 9\<rparr>] 3
   = Inr \<lparr>volumeBins = [\<lparr>price = Some 250, volume = 0\<rparr>, \<lparr>price = Some 250, volume = 0\<rparr>,
                        \<lparr>price = Some 250, volume = 0\<rparr>],
          barWidths = [None, None, None],
          pocBin = \<lparr>price = Some 250, volume = 0\<rparr>\<rparr> \<and>
   sum_list (map VolumeBin.volume
     [\<lparr>price = Some 250, volume = 0\<rparr>, \<lparr>price = Some 250, volume = 0\<rparr>,
      \<lparr>price = Some 250, volume = 0\<rparr>]) = 0 \<and>
   sum_list (map volume
     [\<lparr>date = 0, open = 250, high = 250, low = 250, close = 250, volume = 4\<rparr>,
      \<lparr>date = 1000, open = 250, high = 250, low = 250, close = 250, volume = 6\<rparr>,
      \<lparr>date = 2000, open = 250, high = 250, low = 250, close = 250, volume = 9\<rparr>]) = 19"
  by (simp add: drawVolumeProfile_def accumulate_def binIndex_def barWidth_def Let_def
      numeral_3_eq_3)

section \<open>VWAP\<close>

lemma vwap_step_vwap:
  "vwap (vwap_step s d) = vwap s @
     [\<lparr>LineData.time = fl (real_of_int (date d) / 1000),
       value = js_div (cumulativePV (vwap_step s d)) (cumulativeVolume (vwap_step s d))\<rparr>]"
  by (simp add: vwap_step_def Let_def)

lemma vwap_step_cum:
  "cumulativePV (vwap_step s d) = fl (cumulativePV s + fl (typicalPrice d * volume d))"
  "cumulativeVolume (vwap_step s d) = fl (cumulativeVolume s + volume d)"
  by (simp_all add: vwap_step_def Let_def)

lemma vwap_foldl_cum:
  "cumulativePV (foldl vwap_step s ds)
     = foldl (\<lambda>c d. fl (c + fl (typicalPrice d * volume d))) (cumulativePV s) ds \<and>
   cumulativeVolume (foldl vwap_step s ds)
     = foldl (\<lambda>c d. fl (c + volume d)) (cumulativeVolume s) ds \<and>
   length (vwap (foldl vwap_step s ds)) = length (vwap s) + length ds"
  by (induction ds arbitrary: s) (auto simp: vwap_step_cum vwap_step_vwap)

lemma calculateVWAP_snoc: "calculateVWAP (ds @ [d]) = vwap_step (calculateVWAP ds) d"
  by (simp add: calculateVWAP_def)

lemma calculateVWAP_cum:
  "cumulativePV (calculateVWAP ds)
     = foldl (\<lambda>c d. fl (c + fl (typicalPrice d * volume d))) 0 ds"
  "cumulativeVolume (calculateVWAP ds) = foldl (\<lambda>c d. fl (c + volume d)) 0 ds"
  "length (vwap (calculateVWAP ds)) = length ds"
  using vwap_foldl_cum [of _ ds] by (simp_all add: calculateVWAP_def)

lemma calculateVWAP_nth:
  "i < length ds \<Longrightarrow> value (vwap (calculateVWAP ds) ! i) =
     js_div (cumulativePV (calculateVWAP (take (Suc i) ds)))
            (cumulativeVolume (calculateVWAP (take (Suc i) ds)))"
proof (induction ds rule: rev_induct)
  case Nil
  then show ?case by simp
next
  case (snoc d ds)
  show ?case
  proof (cases "i < length ds")
    case True
    then show ?thesis
      using snoc.IH by (simp add: calculateVWAP_snoc vwap_step_vwap nth_append calculateVWAP_cum(3))
  next
    case False
    then have i: "i = length ds" using snoc.prems by simp
    show ?thesis
      by (simp add: i calculateVWAP_snoc vwap_step_vwap nth_append calculateVWAP_cum(3))
  qed
qed

text \<open>
  Forward error analysis of the two running sums, with \<open>a = 1 - 1 / 2 ^ 53\<close> and
  \<open>b = 1 + 1 / 2 ^ 53\<close>: every rounding of a non-negative number keeps it between \<open>a\<close>
  times and \<open>b\<close> times the exact value.
\<close>

lemma vwap_cum_bounds:
  fixes lo hi :: real
  defines "a \<equiv> 1 - 1 / 2 ^ 53" and "b \<equiv> 1 + 1 / 2 ^ 53"
  assumes lo: "0 \<le> lo"
  shows "\<forall>d \<in> set ds. 0 < volume d \<and> lo \<le> typicalPrice d \<and> typicalPrice d \<le> hi \<Longrightarrow>
     a ^ length ds * sum_list (map volume ds) \<le> cumulativeVolume (calculateVWAP ds) \<and>
     cumulativeVolume (calculateVWAP ds) \<le> b ^ length ds * sum_list (map volume ds) \<and>
     lo * a ^ Suc (length ds) * sum_list (map volume ds) \<le> cumulativePV (calculateVWAP ds) \<and>
     cumulativePV (calculateVWAP ds) \<le> hi * b ^ Suc (length ds) * sum_list (map volume ds) \<and>
     0 \<le> sum_list (map volume ds)"
proof (induction ds rule: rev_induct)
  case Nil
  then show ?case by (simp add: calculateVWAP_def)
next
  case (snoc d ds)
  define k where "k = length ds"
  define W where "W = sum_list (map volume ds)"
  define cv where "cv = cumulativeVolume (calculateVWAP ds)"
  define cp where "cp = cumulativePV (calculateVWAP ds)"
  define v where "v = volume d"
  define t where "t = typicalPrice d"
  have a: "0 < a" "a \<le> 1" by (simp_all add: a_def)
  have b: "1 \<le> b" by (simp add: b_def)
  have ak: "0 \<le> a ^ n" "a ^ n \<le> 1" for n
    using a by (simp_all add: power_le_one)
  have bk: "1 \<le> b ^ n" for n using b by (rule one_le_power)
  have v: "0 < v" and t: "lo \<le> t" "t \<le> hi" using snoc.prems by (simp_all add: v_def t_def)
  have t0: "0 \<le> t" using lo t by simp
  have hi0: "0 \<le> hi" using t0 t by simp
  have ih: "a ^ k * W \<le> cv" "cv \<le> b ^ k * W" "lo * a ^ Suc k * W \<le> cp"
    "cp \<le> hi * b ^ Suc k * W" "0 \<le> W"
    using snoc.IH snoc.prems unfolding k_def W_def cv_def cp_def by simp_all
  have cv0: "0 \<le> cv" using ih(1) ih(5) ak(1) [of k] by (meson mult_nonneg_nonneg order_trans)
  have cp0: "0 \<le> cp"
  proof -
    have "0 \<le> lo * a ^ Suc k * W" using lo ak(1) [of "Suc k"] ih(5) by (intro mult_nonneg_nonneg)
    then show ?thesis using ih(3) by linarith
  qed
  have "a ^ k * (W + v) \<le> cv + v"
  proof -
    have "a ^ k * v \<le> v" using ak(2) [of k] v by (simp add: mult_le_cancel_right1)
    then show ?thesis using ih(1) by (simp add: distrib_left)
  qed
  then have "a * (a ^ k * (W + v)) \<le> a * (cv + v)" using a(1) by (simp add: mult_left_mono)
  also have "\<dots> \<le> fl (cv + v)" unfolding a_def using cv0 v by (intro fl_lower) simp
  finally have V1: "a ^ Suc k * (W + v) \<le> fl (cv + v)" by (simp add: mult.assoc)
  have "cv + v \<le> b ^ k * (W + v)"
  proof -
    have "v \<le> b ^ k * v" using bk [of k] v by (simp add: mult_le_cancel_right1)
    then show ?thesis using ih(2) by (simp add: distrib_left)
  qed
  then have "b * (cv + v) \<le> b * (b ^ k * (W + v))" using b by (simp add: mult_left_mono)
  moreover have "fl (cv + v) \<le> b * (cv + v)" unfolding b_def using cv0 v by (intro fl_upper) simp
  ultimately have V2: "fl (cv + v) \<le> b ^ Suc k * (W + v)" by (simp add: mult.assoc)
  have tv0: "0 \<le> t * v" using t0 v by simp
  have pv0: "0 \<le> fl (t * v)" using tv0 by (rule fl_nonneg)
  have "lo * a ^ Suc k * v \<le> a * (t * v)"
  proof -
    have "lo * a ^ Suc k * v = a * (a ^ k * (lo * v))" by simp
    also have "\<dots> \<le> a * (1 * (lo * v))"
      using ak(2) [of k] lo v a(1) by (intro mult_left_mono mult_right_mono) simp_all
    also have "\<dots> \<le> a * (t * v)" using t(1) v a(1) by (simp add: mult_left_mono mult_right_mono)
    finally show ?thesis .
  qed
  also have "\<dots> \<le> fl (t * v)" unfolding a_def using tv0 by (rule fl_lower)
  finally have "lo * a ^ Suc k * (W + v) \<le> cp + fl (t * v)"
    using ih(3) by (simp add: distrib_left)
  then have "a * (lo * a ^ Suc k * (W + v)) \<le> a * (cp + fl (t * v))"
    using a(1) by (simp add: mult_left_mono)
  also have "\<dots> \<le> fl (cp + fl (t * v))" unfolding a_def using cp0 pv0 by (intro fl_lower) simp
  finally have P1: "lo * a ^ Suc (Suc k) * (W + v) \<le> fl (cp + fl (t * v))"
    by (simp add: mult.assoc mult.left_commute)
  have "fl (t * v) \<le> b * (t * v)" unfolding b_def using tv0 by (rule fl_upper)
  also have "\<dots> \<le> b * (hi * v)" using t(2) v b by (simp add: mult_left_mono mult_right_mono)
  also have "\<dots> \<le> b * (b ^ k * (hi * v))"
  proof -
    have "1 * (hi * v) \<le> b ^ k * (hi * v)"
      using bk [of k] hi0 v by (intro mult_right_mono) simp_all
    then show ?thesis using b by (simp add: mult_left_mono)
  qed
  finally have "fl (t * v) \<le> hi * b ^ Suc k * v" by (simp add: mult.assoc mult.left_commute)
  then have "cp + fl (t * v) \<le> hi * b ^ Suc k * (W + v)"
    using ih(4) by (simp add: distrib_left)
  then have "b * (cp + fl (t * v)) \<le> b * (hi * b ^ Suc k * (W + v))"
    using b by (simp add: mult_left_mono)
  moreover have "fl (cp + fl (t * v)) \<le> b * (cp + fl (t * v))"
    unfolding b_def using cp0 pv0 by (intro fl_upper) simp
  ultimately have P2: "fl (cp + fl (t * v)) \<le> hi * b ^ Suc (Suc k) * (W + v)"
    by (simp add: mult.assoc mult.left_commute)
  have W': "0 \<le> W + v" using ih(5) v by simp
  show ?case
    using V1 V2 P1 P2 W'
    unfolding calculateVWAP_snoc vwap_step_cum
    unfolding k_def W_def cv_def cp_def v_def t_def
    by simp
qed

text \<open>
  Claim C8. The sums and the quotient are computed in double precision, so the interval
  of the claim holds up to rounding. When every bar has a strictly positive volume and a
  non-negative typical price (the double \<^verbatim>\<open>typicalPrice\<close> of the source, which is
  \<open>(high + low + close) / 3\<close> rounded), the VWAP at every index \<open>i\<close> is a finite
  number \<open>v\<close> with
  \<open>min * (1 - u) ^ (i + 3) / (1 + u) ^ (i + 1) \<le> v \<le> max * (1 + u) ^ (i + 3) / (1 - u) ^ (i + 1)\<close>,
  where \<open>min\<close> and \<open>max\<close> are the least and the greatest typical price of bars
  \<open>0..i\<close> and \<open>u = 1 / 2 ^ 53\<close> is the unit roundoff. The example after the witness
  has a VWAP above every typical price.
\<close>

theorem vwap_bounded_rounded:
  assumes pos: "\<forall>d \<in> set priceData. 0 < volume d \<and> 0 \<le> typicalPrice d"
    and i: "i < length priceData"
  shows "\<exists>v. value (vwap (calculateVWAP priceData) ! i) = Some v \<and>
     Min (typicalPrice ` set (take (Suc i) priceData))
         * ((1 - 1 / 2 ^ 53) ^ (i + 3) / (1 + 1 / 2 ^ 53) ^ (i + 1)) \<le> v \<and>
     v \<le> Max (typicalPrice ` set (take (Suc i) priceData))
         * ((1 + 1 / 2 ^ 53) ^ (i + 3) / (1 - 1 / 2 ^ 53) ^ (i + 1))"
proof -
  define a :: real where "a = 1 - 1 / 2 ^ 53"
  define b :: real where "b = 1 + 1 / 2 ^ 53"
  define ds where "ds = take (Suc i) priceData"
  define lo where "lo = Min (typicalPrice ` set ds)"
  define hi where "hi = Max (typicalPrice ` set ds)"
  define W where "W = sum_list (map volume ds)"
  define cv where "cv = cumulativeVolume (calculateVWAP ds)"
  define cp where "cp = cumulativePV (calculateVWAP ds)"
  have a: "0 < a" by (simp add: a_def)
  have b: "0 < b" by (simp add: b_def add_pos_pos)
  have ne: "ds \<noteq> []" using i by (auto simp: ds_def)
  have len: "length ds = Suc i" using i by (simp add: ds_def)
  have sub: "set ds \<subseteq> set priceData" unfolding ds_def by (rule set_take_subset)
  have "lo \<in> typicalPrice ` set ds" unfolding lo_def using ne by (intro Min_in) auto
  then have lo0: "0 \<le> lo" using pos sub by auto
  have rng: "\<forall>d \<in> set ds. 0 < volume d \<and> lo \<le> typicalPrice d \<and> typicalPrice d \<le> hi"
    using pos sub by (auto simp: lo_def hi_def)
  have hi0: "0 \<le> hi"
  proof -
    obtain d where "d \<in> set ds" using ne by (cases ds) auto
    then show ?thesis using rng lo0 by force
  qed
  have bnd: "a ^ Suc i * W \<le> cv" "cv \<le> b ^ Suc i * W"
    "lo * a ^ Suc (Suc i) * W \<le> cp" "cp \<le> hi * b ^ Suc (Suc i) * W"
    using vwap_cum_bounds [OF lo0 rng] unfolding a_def b_def W_def cv_def cp_def len
    by simp_all
  have Wpos: "0 < W"
  proof -
    obtain d r where dr: "ds = d # r" using ne by (cases ds) auto
    have "0 \<le> sum_list (map volume r)"
      using rng dr by (intro sum_list_nonneg) (auto intro: less_imp_le)
    moreover have "0 < volume d" using rng dr by simp
    ultimately show ?thesis by (simp add: W_def dr)
  qed
  have aW: "0 < a ^ Suc i * W" using a Wpos by (intro mult_pos_pos zero_less_power)
  have bW: "0 < b ^ Suc i * W" using b Wpos by (intro mult_pos_pos zero_less_power)
  have cvpos: "0 < cv" using aW bnd(1) by linarith
  have cp0: "0 \<le> cp"
  proof -
    have "0 \<le> lo * a ^ Suc (Suc i) * W"
      using lo0 a Wpos by (intro mult_nonneg_nonneg) (simp_all add: less_imp_le)
    then show ?thesis using bnd(3) by linarith
  qed
  have q0: "0 \<le> cp / cv" using cp0 cvpos by simp
  have v: "value (vwap (calculateVWAP priceData) ! i) = Some (fl (cp / cv))"
    using cvpos by (simp add: calculateVWAP_nth [OF i] js_div_def cp_def cv_def ds_def)
  have up: "cp / cv \<le> hi * b ^ Suc (Suc i) / a ^ Suc i"
  proof -
    have "cp / cv \<le> (hi * b ^ Suc (Suc i) * W) / cv"
      using bnd(4) cvpos by (simp add: divide_right_mono)
    also have "\<dots> \<le> (hi * b ^ Suc (Suc i) * W) / (a ^ Suc i * W)"
    proof -
      have "0 \<le> hi * b ^ Suc (Suc i) * W"
        using hi0 b Wpos by (intro mult_nonneg_nonneg) (simp_all add: less_imp_le)
      moreover have "0 < cv * (a ^ Suc i * W)" using cvpos aW by (rule mult_pos_pos)
      ultimately show ?thesis using bnd(1) by (intro divide_left_mono)
    qed
    also have "\<dots> = hi * b ^ Suc (Suc i) / a ^ Suc i" using Wpos by simp
    finally show ?thesis .
  qed
  have dn: "lo * a ^ Suc (Suc i) / b ^ Suc i \<le> cp / cv"
  proof -
    have "lo * a ^ Suc (Suc i) / b ^ Suc i = (lo * a ^ Suc (Suc i) * W) / (b ^ Suc i * W)"
      using Wpos by simp
    also have "\<dots> \<le> (lo * a ^ Suc (Suc i) * W) / cv"
    proof -
      have "0 \<le> lo * a ^ Suc (Suc i) * W"
        using lo0 a Wpos by (intro mult_nonneg_nonneg) (simp_all add: less_imp_le)
      moreover have "0 < b ^ Suc i * W * cv" using bW cvpos by (rule mult_pos_pos)
      ultimately show ?thesis using bnd(2) by (intro divide_left_mono)
    qed
    also have "\<dots> \<le> cp / cv" using bnd(3) cvpos by (simp add: divide_right_mono)
    finally show ?thesis .
  qed
  have "fl (cp / cv) \<le> b * (cp / cv)" unfolding b_def using q0 by (rule fl_upper)
  also have "\<dots> \<le> b * (hi * b ^ Suc (Suc i) / a ^ Suc i)"
    using up b by (intro mult_left_mono) (simp_all add: less_imp_le)
  also have "\<dots> = hi * (b ^ (i + 3) / a ^ (i + 1))" by (simp add: power_add power3_eq_cube)
  finally have U: "fl (cp / cv) \<le> hi * (b ^ (i + 3) / a ^ (i + 1))" .
  have "lo * (a ^ (i + 3) / b ^ (i + 1)) = a * (lo * a ^ Suc (Suc i) / b ^ Suc i)"
    by (simp add: power_add power3_eq_cube)
  also have "\<dots> \<le> a * (cp / cv)"
    using dn a by (intro mult_left_mono) (simp_all add: less_imp_le)
  also have "\<dots> \<le> fl (cp / cv)" unfolding a_def using q0 by (rule fl_lower)
  finally have L: "lo * (a ^ (i + 3) / b ^ (i + 1)) \<le> fl (cp / cv)" .
  show ?thesis
    using v L U unfolding lo_def hi_def ds_def a_def b_def by simp
qed

theorem vwap_bounded_rounded_witness:
  "list_all (\<lambda>d. 0 < volume d \<and> 0 \<le> typicalPrice d)
     [\<lparr>date = 0, open = 100, high = 110, low = 90, close = 100, volume = 10\<rparr>,
      \<lparr>date = 1000, open = 100, high = 130, low = 110, close = 120, volume = 30\<rparr>] \<and>
   (1::nat) < length [\<lparr>date = 0, open = 100, high = 110, low = 90, close = 100, volume = 10\<rparr>,
                 \<lparr>date = 1000, open = 100, high = 130, low = 110, close = 120, volume = 30\<rparr>] \<and>
   value (vwap (calculateVWAP
     [\<lparr>date = 0, open = 100, high = 110, low = 90, close = 100, volume = 10\<rparr>,
      \<lparr>date = 1000, open = 100, high = 130, low = 110, close = 120, volume = 30\<rparr>]) ! 1)
   = Some 115 \<and>
   (\<exists>v. value (vwap (calculateVWAP
       [\<lparr>date = 0, open = 100, high = 110, low = 90, close = 100, volume = 10\<rparr>,
        \<lparr>date = 1000, open = 100, high = 130, low = 110, close = 120, volume = 30\<rparr>]) ! 1) = Some v \<and>
     Min (typicalPrice ` set (take (Suc 1)
       [\<lparr>date = 0, open = 100, high = 110, low = 90, close = 100, volume = 10\<rparr>,
        \<lparr>date = 1000, open = 100, high = 130, low = 110, close = 120, volume = 30\<rparr>]))
         * ((1 - 1 / 2 ^ 53) ^ (1 + 3) / (1 + 1 / 2 ^ 53) ^ (1 + 1)) \<le> v \<and>
     v \<le> Max (typicalPrice ` set (take (Suc 1)
       [\<lparr>date = 0, open = 100, high = 110, low = 90, close = 100, volume = 10\<rparr>,
        \<lparr>date = 1000, open = 100, high = 130, low = 110, close = 120, volume = 30\<rparr>]))
         * ((1 + 1 / 2 ^ 53) ^ (1 + 3) / (1 - 1 / 2 ^ 53) ^ (1 + 1)))"
  (is "list_all ?P ?pd \<and> _")
proof -
  have h1': "list_all ?P ?pd" by code_simp
  have h1: "\<forall>d \<in> set ?pd. 0 < volume d \<and> 0 \<le> typicalPrice d"
    using h1' by (simp only: list_all_iff)
  have h2: "(1::nat) < length ?pd" by simp
  have "js_div (foldl (\<lambda>c d. fl (c + fl (typicalPrice d * volume d))) 0 (take (Suc 1) ?pd))
      (foldl (\<lambda>c d. fl (c + volume d)) 0 (take (Suc 1) ?pd)) = Some 115"
    by code_simp
  then have e: "value (vwap (calculateVWAP ?pd) ! 1) = Some 115"
    by (simp only: calculateVWAP_nth [OF h2] calculateVWAP_cum)
  show ?thesis
    by (rule conjI [OF h1' conjI [OF h2 conjI [OF e vwap_bounded_rounded [OF h1 h2]]]])
qed

text \<open>
  Two bars with high \<open>2\<close>, low \<open>1\<close>, close \<open>1\<close> and volumes \<open>1\<close> and \<open>6\<close>. Both
  typical prices are \<open>1.3333333333333333\<close>, the second VWAP is \<open>1.3333333333333335\<close>,
  which is also above the exact quotient \<open>4 / 3\<close>.
\<close>

theorem vwap_above_typical_counterexample:
  "list_all (\<lambda>d. 0 < volume d)
     [\<lparr>date = 0, open = 1, high = 2, low = 1, close = 1, volume = 1\<rparr>,
      \<lparr>date = 1000, open = 1, high = 2, low = 1, close = 1, volume = 6\<rparr>] \<and>
   map typicalPrice
     [\<lparr>date = 0, open = 1, high = 2, low = 1, close = 1, volume = 1\<rparr>,
      \<lparr>date = 1000, open = 1, high = 2, low = 1, close = 1, volume = 6\<rparr>]
   = [6004799503160661 / 4503599627370496, 6004799503160661 / 4503599627370496] \<and>
   value (vwap (calculateVWAP
     [\<lparr>date = 0, open = 1, high = 2, low = 1, close = 1, volume = 1\<rparr>,
      \<lparr>date = 1000, open = 1, high = 2, low = 1, close = 1, volume = 6\<rparr>]) ! 1)
   = Some (6004799503160662 / 4503599627370496) \<and>
   (6004799503160661 / 4503599627370496 :: real) < 6004799503160662 / 4503599627370496 \<and>
   ((2 + 1 + 1) / 3 :: real) < 6004799503160662 / 4503599627370496"
  (is "list_all ?P ?pd \<and> _")
proof -
  have 1: "list_all ?P ?pd" by simp
  have i: "(1::nat) < length ?pd" by simp
  have 2: "map typicalPrice ?pd
      = [6004799503160661 / 4503599627370496, 6004799503160661 / 4503599627370496]"
    by code_simp
  have "js_div (foldl (\<lambda>c d. fl (c + fl (typicalPrice d * volume d))) 0 (take (Suc 1) ?pd))
      (foldl (\<lambda>c d. fl (c + volume d)) 0 (take (Suc 1) ?pd))
      = Some (6004799503160662 / 4503599627370496)"
    by code_simp
  then have 3: "value (vwap (calculateVWAP ?pd) ! 1) = Some (6004799503160662 / 4503599627370496)"
    by (simp only: calculateVWAP_nth [OF i] calculateVWAP_cum)
  have 4: "(6004799503160661 / 4503599627370496 :: real) < 6004799503160662 / 4503599627370496"
    by simp
  have 5: "((2 + 1 + 1) / 3 :: real) < 6004799503160662 / 4503599627370496" by simp
  show ?thesis by (rule conjI [OF 1 conjI [OF 2 conjI [OF 3 conjI [OF 4 5]]]])
qed

section \<open>Indicator engine\<close>

lemma rsi_change_nonneg:
  "0 \<le> fst gl \<Longrightarrow> 0 \<le> snd gl \<Longrightarrow>
     0 \<le> fst (rsi_change prices gl j) \<and> 0 \<le> snd (rsi_change prices gl j)"
  by (simp add: rsi_change_def Let_def)

lemma rsi_foldl_nonneg:
  "0 \<le> fst gl \<Longrightarrow> 0 \<le> snd gl \<Longrightarrow>
     0 \<le> fst (foldl (rsi_change prices) gl js) \<and> 0 \<le> snd (foldl (rsi_change prices) gl js)"
proof (induction js arbitrary: gl)
  case Nil
  then show ?case by simp
next
  case (Cons j js)
  then show ?case using rsi_change_nonneg [of gl prices j] by simp
qed

lemma rsi_formula_range:
  assumes "0 \<le> (rs::real)"
  shows "0 \<le> 100 - 100 / (1 + rs) \<and> 100 - 100 / (1 + rs) \<le> 100"
proof -
  have "100 / (1 + rs) \<le> 100" using assms by (simp add: pos_divide_le_eq)
  moreover have "0 \<le> 100 / (1 + rs)" using assms by simp
  ultimately show ?thesis by simp
qed

lemma rsi_at_range:
  assumes "0 < period" and "period \<le> i"
  shows "\<exists>v. rsi_at prices period i = Some v \<and> 0 \<le> v \<and> v \<le> 100"
proof -
  define gl where "gl = foldl (rsi_change prices) (0, 0) [i - period + 1..<i + 1]"
  have nn: "0 \<le> fst gl" "0 \<le> snd gl"
    using rsi_foldl_nonneg [of "(0, 0)" prices] by (simp_all add: gl_def)
  define rs where "rs = fst gl / real period /
      (if snd gl / real period = 0 then 1 else snd gl / real period)"
  have "0 \<le> rs" using nn assms(1) by (simp add: rs_def)
  then have "0 \<le> 100 - 100 / (1 + rs) \<and> 100 - 100 / (1 + rs) \<le> 100"
    by (rule rsi_formula_range)
  moreover have "rsi_at prices period i = Some (100 - 100 / (1 + rs))"
    using assms(2) by (simp add: rsi_at_def Let_def gl_def rs_def)
  ultimately show ?thesis by simp
qed

text \<open>
  Claim C5. For every close-price sequence and every positive period (the engine uses
  14), the RSI array is as long as the sequence; at every index \<open>i < period\<close> it holds
  \<^verbatim>\<open>null\<close>, and at every index \<open>i \<ge> period\<close> it holds a number between 0 and 100.
  This includes windows without losses, where the average loss is zero and the source
  divides by 1 instead.
\<close>

theorem rsi_range:
  assumes "0 < period" and "i < length prices"
  shows "length (calculateRSI prices period) = length prices \<and>
     (i < period \<longrightarrow> calculateRSI prices period ! i = None) \<and>
     (period \<le> i \<longrightarrow>
        (\<exists>v. calculateRSI prices period ! i = Some v \<and> 0 \<le> v \<and> v \<le> 100))"
  using assms rsi_at_range [of period i prices]
  by (simp add: calculateRSI_def rsi_at_def)

theorem rsi_range_witness:
  "(0::nat) < 14 \<and>
   (14::nat) < length [1, 2, 3, 4, 5, 6, 7, 8, 9, 10, 11, 12, 13, 14, 15 :: real] \<and>
   rsi_at [1, 2, 3, 4, 5, 6, 7, 8, 9, 10, 11, 12, 13, 14, 15] 14 14 = Some 50 \<and>
   (\<exists>v. calculateRSI [1, 2, 3, 4, 5, 6, 7, 8, 9, 10, 11, 12, 13, 14, 15] 14 ! 14 = Some v \<and>
        0 \<le> v \<and> v \<le> 100)"
  (is "_ \<and> _ < length ?ps \<and> _ \<and> _")
proof -
  have h1: "(0::nat) < 14" by simp
  have h2: "(14::nat) < length ?ps" by simp
  have e: "rsi_at ?ps 14 14 = Some 50"
    by (simp add: rsi_at_def rsi_change_def Let_def upt_rec)
  have h3: "(14::nat) \<le> 14" by simp
  note t = rsi_range [OF h1 h2]
  have c: "\<exists>v. calculateRSI ?ps 14 ! 14 = Some v \<and> 0 \<le> v \<and> v \<le> 100"
    using t [THEN conjunct2, THEN conjunct2] h3 by (rule mp)
  show ?thesis by (rule conjI [OF h1 conjI [OF h2 conjI [OF e c]]])
qed

lemma ema_loop_length: "length (ema_loop k prev xs) = length xs"
  by (induction xs arbitrary: prev) auto

lemma calculateEMA_length: "length (calculateEMA data period) = length data"
  by (simp add: calculateEMA_def ema_loop_length split: list.splits)

lemma calculateSMA_length: "length (calculateSMA prices period) = length prices"
  by (simp add: calculateSMA_def)

lemma calculateRSI_length: "length (calculateRSI prices period) = length prices"
  by (simp add: calculateRSI_def)

lemma limitedData_length: "length (limitedData bars) = min (length bars) 100"
  by (simp add: limitedData_def)

lemma limitedData_nth:
  "idx < min (length bars) 100 \<Longrightarrow>
     limitedData bars ! idx = bars ! (length bars - min (length bars) 100 + idx)"
  by (auto simp: limitedData_def min_def)

text \<open>
  Claim C10. The engine computes over the trailing 100 bars only. For \<open>n \<ge> 1\<close> bars the
  closes it works on are those of the last \<open>min n 100\<close> bars; the SMA, RSI and EMA arrays
  and the returned chart data all have length \<open>min n 100\<close>; and point \<open>idx\<close> of the
  chart data carries the date and close of bar \<open>n - min n 100 + idx\<close> of the source
  series together with the \<open>idx\<close>-th value of each indicator array (SMA, RSI, MACD and
  its signal line) and the Bollinger bands computed at \<open>idx\<close> of the window, so the
  output is aligned to the truncated window. (Without bars the engine returns \<^verbatim>\<open>null\<close>.)
\<close>

theorem indicators_window:
  assumes ne: "bars \<noteq> []" and n: "n = length bars"
    and prices: "prices = map close (drop (n - min n 100) bars)"
  shows "length prices = min n 100 \<and>
     length (calculateSMA prices 20) = min n 100 \<and>
     length (calculateSMA prices 50) = min n 100 \<and>
     length (calculateRSI prices 14) = min n 100 \<and>
     length (calculateEMA prices 12) = min n 100 \<and>
     length (calculateEMA prices 26) = min n 100 \<and>
     (\<exists>pts. indicators bars = Some pts \<and> length pts = min n 100 \<and>
        (\<forall>idx < min n 100.
           ChartPoint.date (pts ! idx) = date (bars ! (n - min n 100 + idx)) \<and>
           ChartPoint.price (pts ! idx) = close (bars ! (n - min n 100 + idx)) \<and>
           ChartPoint.price (pts ! idx) = prices ! idx \<and>
           sma20 (pts ! idx) = calculateSMA prices 20 ! idx \<and>
           sma50 (pts ! idx) = calculateSMA prices 50 ! idx \<and>
           rsi (pts ! idx) = calculateRSI prices 14 ! idx \<and>
           macd (pts ! idx) = calculateEMA prices 12 ! idx - calculateEMA prices 26 ! idx \<and>
           signal (pts ! idx) =
             calculateEMA (map (\<lambda>k. calculateEMA prices 12 ! k - calculateEMA prices 26 ! k)
                             [0..<min n 100]) 9 ! idx \<and>
           ChartPoint.upperBand (pts ! idx) =
             band (calculateSMA prices 20 ! idx)
               (2 * calculateStdDev prices (calculateSMA prices 20) idx 20) \<and>
           ChartPoint.lowerBand (pts ! idx) =
             band (calculateSMA prices 20 ! idx)
               (- (2 * calculateStdDev prices (calculateSMA prices 20) idx 20))))"
proof -
  have ld: "limitedData bars = drop (n - min n 100) bars"
    by (simp add: limitedData_def n min_def)
  have pl: "prices = map close (limitedData bars)" by (simp add: prices ld)
  have len: "length prices = min n 100" by (simp add: pl limitedData_length n)
  have ll: "length (limitedData bars) = min n 100" by (simp add: limitedData_length n)
  have nth: "limitedData bars ! idx = bars ! (n - min n 100 + idx)" if "idx < min n 100" for idx
    using that limitedData_nth [of idx bars] by (simp add: n)
  define pts where "pts = the (indicators bars)"
  have ind: "indicators bars = Some pts"
    using ne by (simp add: indicators_def pts_def Let_def)
  have lp: "length pts = min n 100"
    using ne by (simp add: pts_def indicators_def Let_def ll)
  have pt: "ChartPoint.date (pts ! idx) = date (limitedData bars ! idx) \<and>
           ChartPoint.price (pts ! idx) = close (limitedData bars ! idx) \<and>
           sma20 (pts ! idx) = calculateSMA prices 20 ! idx \<and>
           sma50 (pts ! idx) = calculateSMA prices 50 ! idx \<and>
           rsi (pts ! idx) = calculateRSI prices 14 ! idx \<and>
           macd (pts ! idx) = calculateEMA prices 12 ! idx - calculateEMA prices 26 ! idx \<and>
           signal (pts ! idx) =
             calculateEMA (map (\<lambda>k. calculateEMA prices 12 ! k - calculateEMA prices 26 ! k)
                             [0..<min n 100]) 9 ! idx \<and>
           ChartPoint.upperBand (pts ! idx) =
             band (calculateSMA prices 20 ! idx)
               (2 * calculateStdDev prices (calculateSMA prices 20) idx 20) \<and>
           ChartPoint.lowerBand (pts ! idx) =
             band (calculateSMA prices 20 ! idx)
               (- (2 * calculateStdDev prices (calculateSMA prices 20) idx 20))"
    if "idx < min n 100" for idx
    using ne that
    by (simp add: pts_def indicators_def Let_def ll pl [symmetric] calculateEMA_length len)
  have pr: "close (limitedData bars ! idx) = prices ! idx" if "idx < min n 100" for idx
    using that by (simp add: pl ll)
  show ?thesis
    using len ind lp pt nth pr
    by (simp add: calculateSMA_length calculateRSI_length calculateEMA_length)
qed

theorem indicators_window_witness:
  "replicate 150 \<lparr>date = 0, open = 1, high = 1, low = 1, close = 1, volume = 1\<rparr> \<noteq> [] \<and>
   (150::nat) = length (replicate 150 \<lparr>date = 0, open = 1, high = 1, low = 1, close = 1, volume = 1\<rparr>) \<and>
   min (150::nat) 100 = 100 \<and>
   length (calculateRSI (map close (drop (150 - min 150 100)
     (replicate 150 \<lparr>date = 0, open = 1, high = 1, low = 1, close = 1, volume = 1\<rparr>))) 14)
     = min 150 100"
  (is "?bars \<noteq> [] \<and> _")
proof -
  have h1: "?bars \<noteq> []" by simp
  have h2: "(150::nat) = length ?bars" by simp
  have m: "min (150::nat) 100 = 100" by simp
  note t = indicators_window [OF h1 h2 refl]
  have c: "length (calculateRSI (map close (drop (150 - min 150 100) ?bars)) 14) = min 150 100"
    using t by (rule conjunct2 [THEN conjunct2, THEN conjunct2, THEN conjunct1])
  show ?thesis by (rule conjI [OF h1 conjI [OF h2 conjI [OF m c]]])
qed

section \<open>Configuration values\<close>

text \<open>
  Claim C1. No transformer checks its configuration, so a non-positive value is not
  rejected. With \<open>brickSize \<le> 0\<close> the Renko builder returns the empty brick list for
  every input and raises nothing. With \<open>bins \<le> 0\<close> the volume profile ends in the
  \<open>TypeError\<close> of the reduction over the empty bucket list, which is not a check of the
  configuration. With \<open>boxSize < 0\<close> the Point-and-Figure builder computes with the
  negative box size: for a series with at least one bar it returns columns, the first an
  \<open>X\<close> column from bar 0 whose first box is \<open>floor (firstClose / boxSize)\<close>.
\<close>

theorem nonpositive_configuration:
  "(brickSize \<le> 0 \<longrightarrow> calculateRenkoBricks priceData brickSize = Inr []) \<and>
   (bins \<le> 0 \<longrightarrow> drawVolumeProfile priceData bins = Inl TypeError) \<and>
   (boxSize < 0 \<and> priceData \<noteq> [] \<longrightarrow>
      (\<exists>c cs. calculatePointFigure priceData boxSize reversalAmount = c # cs \<and>
         type c = X \<and> startIndex c = 0 \<and> boxes c \<noteq> [] \<and>
         hd (boxes c) = \<lfloor>close (hd priceData) / boxSize\<rfloor>))"
proof (intro conjI impI)
  assume "brickSize \<le> 0"
  then show "calculateRenkoBricks priceData brickSize = Inr []"
    by (rule renko_nonpositive_brickSize)
next
  assume "bins \<le> 0"
  then show "drawVolumeProfile priceData bins = Inl TypeError"
    by (simp add: drawVolumeProfile_def)
next
  assume "boxSize < 0 \<and> priceData \<noteq> []"
  then have "pf_first \<lfloor>close (hd priceData) / boxSize\<rfloor>
      (calculatePointFigure priceData boxSize reversalAmount)"
    by (intro calculatePointFigure_first) simp
  then show "\<exists>c cs. calculatePointFigure priceData boxSize reversalAmount = c # cs \<and>
         type c = X \<and> startIndex c = 0 \<and> boxes c \<noteq> [] \<and>
         hd (boxes c) = \<lfloor>close (hd priceData) / boxSize\<rfloor>"
    by (cases "calculatePointFigure priceData boxSize reversalAmount")
      (auto simp: pf_first_def)
qed

theorem nonpositive_configuration_witness:
  "(- 10 :: real) \<le> 0 \<and> (0 :: int) \<le> 0 \<and>
   ((- 10 :: real) < 0 \<and>
     [\<lparr>date = 0, open = 100, high = 100, low = 100, close = 100, volume = 1\<rparr>,
      \<lparr>date = 1000, open = 100, high = 125, low = 100, close = 125, volume = 1\<rparr>] \<noteq> []) \<and>
   (\<exists>c cs. calculatePointFigure
       [\<lparr>date = 0, open = 100, high = 100, low = 100, close = 100, volume = 1\<rparr>,
        \<lparr>date = 1000, open = 100, high = 125, low = 100, close = 125, volume = 1\<rparr>] (- 10) 3 = c # cs \<and>
      type c = X \<and> startIndex c = 0 \<and> boxes c \<noteq> [] \<and>
      hd (boxes c) = \<lfloor>close (hd
       [\<lparr>date = 0, open = 100, high = 100, low = 100, close = 100, volume = 1\<rparr>,
        \<lparr>date = 1000, open = 100, high = 125, low = 100, close = 125, volume = 1\<rparr>]) / (- 10)\<rfloor>) \<and>
   calculateRenkoBricks
     [\<lparr>date = 0, open = 100, high = 100, low = 100, close = 100, volume = 1\<rparr>,
      \<lparr>date = 1000, open = 100, high = 125, low = 100, close = 125, volume = 1\<rparr>] (- 10) = Inr [] \<and>
   drawVolumeProfile
     [\<lparr>date = 0, open = 100, high = 100, low = 100, close = 100, volume = 1\<rparr>,
      \<lparr>date = 1000, open = 100, high = 125, low = 100, close = 125, volume = 1\<rparr>] 0 = Inl TypeError"
  (is "_ \<and> _ \<and> _ \<and> _ \<and> calculateRenkoBricks ?pd _ = _ \<and> _")
proof -
  have h1: "(- 10 :: real) \<le> 0" by simp
  have h2: "(0 :: int) \<le> 0" by simp
  have h3: "(- 10 :: real) < 0 \<and> ?pd \<noteq> []" by simp
  note t = nonpositive_configuration [of "- 10" ?pd 0 "- 10" 3]
  have c1: "calculateRenkoBricks ?pd (- 10) = Inr []"
    using t h1 by (rule conjunct1 [THEN mp])
  have c2: "drawVolumeProfile ?pd 0 = Inl TypeError"
    using t [THEN conjunct2, THEN conjunct1] h2 by (rule mp)
  have c3: "\<exists>c cs. calculatePointFigure ?pd (- 10) 3 = c # cs \<and>
      type c = X \<and> startIndex c = 0 \<and> boxes c \<noteq> [] \<and>
      hd (boxes c) = \<lfloor>close (hd ?pd) / (- 10)\<rfloor>"
    using t [THEN conjunct2, THEN conjunct2] h3 by (rule mp)
  show ?thesis
    by (rule conjI [OF h1 conjI [OF h2 conjI [OF h3 conjI [OF c3 conjI [OF c1 c2]]]]])
qed

theorem configuration_rejected_counterexample:
  "calculateRenkoBricks
     [\<lparr>date = 0, open = 100, high = 100, low = 100, close = 100, volume = 1\<rparr>,
      \<lparr>date = 1000, open = 100, high = 125, low = 100, close = 125, volume = 1\<rparr>] (- 10) = Inr [] \<and>
   calculatePointFigure
     [\<lparr>date = 0, open = 100, high = 100, low = 100, close = 100, volume = 1\<rparr>,
      \<lparr>date = 1000, open = 100, high = 125, low = 100, close = 125, volume = 1\<rparr>] (- 10) 3
   = [\<lparr>type = X, boxes = [- 10], startIndex = 0\<rparr>,
      \<lparr>type = O', boxes = [], startIndex = 1\<rparr>]"
  by (intro conjI; code_simp)

end
